theory Spec2Isabelle
  imports Main "HOL-Library.AList"
begin

section \<open>Python values, strings and dictionaries\<close>

text \<open>
  The target schema is a tree of Python dictionaries. A dictionary is an association list
  in insertion order: \<open>map_of\<close> is \<open>dict.get\<close>, \<open>AList.update\<close> is item assignment (an
  existing key keeps its place, a new key goes to the end) and \<open>AList.delete\<close> is
  \<open>dict.pop(key, None)\<close>. A Python \<open>set\<close> of strings is the list of its elements in
  iteration order. Strings are byte strings; the whitespace and line-break classes below
  are those of Python's \<open>str\<close> on ASCII.
\<close>

datatype pyval =
    PNone
  | PBool bool
  | PInt int
  | PStr string
  | PList "pyval list"
  | PDict "(string \<times> pyval) list"

type_synonym pydict = "(string \<times> pyval) list"

text \<open>\<open>s.endswith(t)\<close>.\<close>

definition endswith :: "string \<Rightarrow> string \<Rightarrow> bool" where
  "endswith s t = (length t \<le> length s \<and> drop (length s - length t) s = t)"

text \<open>\<open>s[:-n]\<close> for a positive \<open>n\<close>.\<close>

definition drop_last :: "nat \<Rightarrow> string \<Rightarrow> string" where
  "drop_last n s = take (length s - n) s"

text \<open>\<open>text.split(c)[-1]\<close>: what follows the last occurrence of \<open>c\<close>.\<close>

definition after_last :: "char \<Rightarrow> string \<Rightarrow> string" where
  "after_last c s = rev (takeWhile (\<lambda>x. x \<noteq> c) (rev s))"

text \<open>
  \<open>utils.local_name\<close>. The argument is \<open>None\<close> or a string (the source applies \<open>str\<close> to
  anything else).
\<close>

definition local_name :: "string option \<Rightarrow> string" where
  "local_name v =
     (case v of
        None \<Rightarrow> []
      | Some text \<Rightarrow>
          if CHR ''}'' \<in> set text then after_last CHR ''}'' text
          else if CHR '':'' \<in> set text then after_last CHR '':'' text
          else text)"

section \<open>The target schema model\<close>

text \<open>
  A slot is a dictionary of fields (\<open>range\<close>, \<open>required\<close>, \<open>multivalued\<close>, ...). A class is a
  dictionary whose keys \<open>is_a\<close>, \<open>attributes\<close> and \<open>exactly_one_of\<close> are read by the passes
  below; each is optional, and every other key of the class is kept in \<open>class_fields\<close>.
  An entry of \<open>exactly_one_of\<close> is the literal
  \<open>{"slot_conditions": {slot_name: {"required": True}}}\<close>.
\<close>

type_synonym slot = pydict

datatype class_expr = SlotConditions "(string \<times> slot) list"

record class_def =
  is_a :: "string option"
  attributes :: "(string \<times> slot) list option"
  exactly_one_of :: "class_expr list option"
  class_fields :: pydict

text \<open>The empty dictionary \<open>{}\<close> as a class, and the truth value of a class dictionary.\<close>

definition empty_class :: class_def where
  "empty_class = \<lparr>is_a = None, attributes = None, exactly_one_of = None, class_fields = []\<rparr>"

definition class_truthy :: "class_def \<Rightarrow> bool" where
  "class_truthy c =
     (is_a c \<noteq> None \<or> attributes c \<noteq> None \<or> exactly_one_of c \<noteq> None \<or> class_fields c \<noteq> [])"

text \<open>The truth value of an optional string: \<open>None\<close> and \<open>""\<close> are false.\<close>

definition str_truthy :: "string option \<Rightarrow> bool" where
  "str_truthy v = (case v of None \<Rightarrow> False | Some s \<Rightarrow> s \<noteq> [])"

section \<open>Reference resolver\<close>

record reference_resolver =
  schema_classes :: "(string \<times> class_def) list"
  inheritance_map :: "(string \<times> string) list"
  known_class_names :: "string list"

text \<open>
  The step shared by the three ancestor walks of \<open>ReferenceResolver\<close>:
  \<^verbatim>\<open>
  cls_def = self.linkml_schema["classes"].get(current)
  base = None
  if cls_def:
      base = cls_def.get("is_a")
  \<close>
\<close>

definition declared_base :: "reference_resolver \<Rightarrow> string \<Rightarrow> string option" where
  "declared_base R current =
     (case map_of (schema_classes R) current of
        None \<Rightarrow> None
      | Some cls_def \<Rightarrow> if class_truthy cls_def then is_a cls_def else None)"

text \<open>
  \<^verbatim>\<open>
  if not base:
      base = self.inheritance_map.get(current)
  current = base
  \<close>
\<close>

definition next_base :: "reference_resolver \<Rightarrow> string \<Rightarrow> string option" where
  "next_base R current =
     (let base = declared_base R current
      in if \<not> str_truthy base then map_of (inheritance_map R) current else base)"

definition chain_keys :: "reference_resolver \<Rightarrow> string set" where
  "chain_keys R = fst ` set (schema_classes R) \<union> fst ` set (inheritance_map R)"

text \<open>The number of steps a walk can still take: every step but the last visits a new key.\<close>

definition walk_budget :: "reference_resolver \<Rightarrow> string option \<Rightarrow> string set \<Rightarrow> nat" where
  "walk_budget R current visited =
     2 * card (chain_keys R - visited) + (case current of None \<Rightarrow> 0 | Some _ \<Rightarrow> 1)"

lemma finite_chain_keys: "finite (chain_keys R)"
  by (simp add: chain_keys_def)

lemma next_base_key:
  assumes "next_base R c = Some b"
  shows "c \<in> chain_keys R"
proof (cases "map_of (inheritance_map R) c")
  case (Some a)
  then have "c \<in> fst ` set (inheritance_map R)"
    by (metis map_of_eq_None_iff option.distinct(1))
  then show ?thesis by (simp add: chain_keys_def)
next
  case None
  with assms have "declared_base R c \<noteq> None"
    by (auto simp: next_base_def Let_def str_truthy_def split: if_splits option.splits)
  then have "map_of (schema_classes R) c \<noteq> None"
    by (auto simp: declared_base_def split: option.splits)
  then have "c \<in> fst ` set (schema_classes R)"
    by (metis map_of_eq_None_iff)
  then show ?thesis by (simp add: chain_keys_def)
qed

lemma walk_budget_step:
  assumes "c \<notin> visited"
  shows "walk_budget R (next_base R c) (insert c visited) < walk_budget R (Some c) visited"
proof (cases "next_base R c")
  case None
  have "card (chain_keys R - insert c visited) \<le> card (chain_keys R - visited)"
    by (rule card_mono) (auto simp: finite_chain_keys)
  with None show ?thesis by (simp add: walk_budget_def)
next
  case (Some b)
  then have "c \<in> chain_keys R - visited"
    using assms next_base_key by simp
  then have "card (chain_keys R - insert c visited) < card (chain_keys R - visited)"
    by (intro psubset_card_mono) (auto simp: finite_chain_keys)
  with Some show ?thesis by (simp add: walk_budget_def)
qed

text \<open>
  The inner loop of \<open>select_keyref_range\<close>:
  \<^verbatim>\<open>
  while current and current not in visited:
      ancestors.append(current)
      visited.add(current)
      ... current = base
  \<close>
\<close>

function ancestors_loop ::
  "reference_resolver \<Rightarrow> string option \<Rightarrow> string list \<Rightarrow> string set \<Rightarrow> string list" where
  "ancestors_loop R current ancestors visited =
     (case current of
        None \<Rightarrow> ancestors
      | Some c \<Rightarrow>
          if c = [] \<or> c \<in> visited then ancestors
          else ancestors_loop R (next_base R c) (ancestors @ [c]) (insert c visited))"
  by pat_completeness auto
termination
  by (relation "measure (\<lambda>(R, current, ancestors, visited). walk_budget R current visited)")
     (auto intro: walk_budget_step)

declare ancestors_loop.simps [simp del]

text \<open>The chain of one candidate, from the class itself towards the root.\<close>

definition ancestor_chain :: "reference_resolver \<Rightarrow> string \<Rightarrow> string list" where
  "ancestor_chain R cls_name = ancestors_loop R (Some cls_name) [] {}"

text \<open>
  \<^verbatim>\<open>
  for cls_name in target_classes:
      if not cls_name:
          continue
      ...
      if ancestors:
          ancestor_lists.append(ancestors)
  \<close>
\<close>

fun collect_ancestor_lists :: "reference_resolver \<Rightarrow> string list \<Rightarrow> string list list" where
  "collect_ancestor_lists R [] = []"
| "collect_ancestor_lists R (cls_name # rest) =
     (if cls_name = [] then collect_ancestor_lists R rest
      else let ancestors = ancestor_chain R cls_name
           in if ancestors \<noteq> [] then ancestors # collect_ancestor_lists R rest
              else collect_ancestor_lists R rest)"

text \<open>
  \<^verbatim>\<open>
  for ancestors in ancestor_lists[1:]:
      common.intersection_update(ancestors)
      if not common:
          break
  \<close>
\<close>

fun intersect_chains :: "string set \<Rightarrow> string list list \<Rightarrow> string set" where
  "intersect_chains common [] = common"
| "intersect_chains common (ancestors # rest) =
     (let common' = common \<inter> set ancestors
      in if common' = {} then common' else intersect_chains common' rest)"

definition select_keyref_range :: "reference_resolver \<Rightarrow> string list \<Rightarrow> string option" where
  "select_keyref_range R target_classes =
     (if target_classes = [] then None
      else if length target_classes = 1 then Some (hd target_classes)
      else
        (case collect_ancestor_lists R target_classes of
           [] \<Rightarrow> None
         | first # rest \<Rightarrow>
             (let common = intersect_chains (set first) rest
              in if common = {} then None
                 else find (\<lambda>ancestor. ancestor \<in> common) first)))"

text \<open>
  The loop of \<open>class_is_ref_like\<close>:
  \<^verbatim>\<open>
  while current:
      if current.endswith("Ref") or current == "Reference":
          return True
      if current in visited:
          break
      visited.add(current)
      ... current = base
  return False
  \<close>
\<close>

function ref_like_loop :: "reference_resolver \<Rightarrow> string option \<Rightarrow> string set \<Rightarrow> bool" where
  "ref_like_loop R current visited =
     (case current of
        None \<Rightarrow> False
      | Some c \<Rightarrow>
          if c = [] then False
          else if endswith c ''Ref'' \<or> c = ''Reference'' then True
          else if c \<in> visited then False
          else ref_like_loop R (next_base R c) (insert c visited))"
  by pat_completeness auto

termination
  by (relation "measure (\<lambda>(R, current, visited). walk_budget R current visited)")
     (auto intro: walk_budget_step)

declare ref_like_loop.simps [simp del]

definition class_is_ref_like :: "reference_resolver \<Rightarrow> string option \<Rightarrow> bool" where
  "class_is_ref_like R class_name =
     (if \<not> str_truthy class_name then False else ref_like_loop R class_name {})"

text \<open>
  \<open>reference_target_for_class\<close>. The candidate a name with the suffix \<open>Ref\<close> stands for:
  \<^verbatim>\<open>
  candidate = name[:-3]
  if candidate in self.known_class_names:
      return candidate
  \<close>
\<close>

definition ref_candidate :: "reference_resolver \<Rightarrow> string option \<Rightarrow> string option" where
  "ref_candidate R name =
     (case name of
        None \<Rightarrow> None
      | Some n \<Rightarrow>
          if n \<noteq> [] \<and> endswith n ''Ref'' \<and> drop_last 3 n \<in> set (known_class_names R)
          then Some (drop_last 3 n) else None)"

text \<open>
  Its loop returns the candidate found on an ancestor's \<open>is_a\<close>, or nothing when the walk
  ends.
\<close>

function target_loop :: "reference_resolver \<Rightarrow> string option \<Rightarrow> string set \<Rightarrow> string option" where
  "target_loop R current visited =
     (case current of
        None \<Rightarrow> None
      | Some c \<Rightarrow>
          if c = [] \<or> c \<in> visited then None
          else (case ref_candidate R (declared_base R c) of
                  Some candidate \<Rightarrow> Some candidate
                | None \<Rightarrow> target_loop R (next_base R c) (insert c visited)))"
  by pat_completeness auto

termination
  by (relation "measure (\<lambda>(R, current, visited). walk_budget R current visited)")
     (auto intro: walk_budget_step)

declare target_loop.simps [simp del]

definition id_candidate :: "reference_resolver \<Rightarrow> string option \<Rightarrow> string option" where
  "id_candidate R type_name_local =
     (case type_name_local of
        None \<Rightarrow> None
      | Some n \<Rightarrow>
          if n \<noteq> [] \<and> endswith n ''ID'' \<and> drop_last 2 n \<in> set (known_class_names R)
          then Some (drop_last 2 n) else None)"

definition reference_target_for_class ::
  "reference_resolver \<Rightarrow> string \<Rightarrow> string option \<Rightarrow> string option" where
  "reference_target_for_class R owner_class type_name_local =
     (case ref_candidate R (Some owner_class) of
        Some candidate \<Rightarrow> Some candidate
      | None \<Rightarrow>
          (case target_loop R (Some owner_class) {} of
             Some candidate \<Rightarrow> Some candidate
           | None \<Rightarrow> id_candidate R type_name_local))"

text \<open>
  The specification's reading of the general case: the classes common to every candidate's
  chain, and the first of them in the order of the first candidate's own chain.
\<close>

definition common_ancestors :: "reference_resolver \<Rightarrow> string list \<Rightarrow> string set" where
  "common_ancestors R cs = (\<Inter>c\<in>set cs. set (ancestor_chain R c))"

definition nearest_common_ancestor :: "reference_resolver \<Rightarrow> string list \<Rightarrow> string option" where
  "nearest_common_ancestor R cs =
     find (\<lambda>a. a \<in> common_ancestors R cs) (ancestor_chain R (hd cs))"

text \<open>The hierarchy of the specification's example, with an unrelated class beside it.\<close>

definition example_resolver :: reference_resolver where
  "example_resolver =
     \<lparr>schema_classes =
        [(''Base'', empty_class\<lparr>class_fields := [(''description'', PStr ''base'')]\<rparr>),
         (''DerivedA'', empty_class\<lparr>is_a := Some ''Base''\<rparr>),
         (''DerivedB'', empty_class\<lparr>is_a := Some ''Base''\<rparr>),
         (''Other'', empty_class\<lparr>class_fields := [(''description'', PStr ''other'')]\<rparr>)],
      inheritance_map = [],
      known_class_names = [''Base'', ''DerivedA'', ''DerivedB'', ''Other'']\<rparr>"

section \<open>Source content model\<close>

text \<open>
  The parsed source schema belongs to the XML Schema library; the passes read it through a
  few attributes. An occurrence bound is \<open>None\<close>, the string \<open>"unbounded"\<close> or an integer.
  A particle of a content model is an element declaration (its \<open>name\<close>, the \<open>name\<close> of its
  \<open>ref\<close>, its \<open>min_occurs\<close>), a model group (its \<open>model\<close>, \<open>max_occurs\<close>, \<open>occurs\<close> and the
  particles \<open>iter_model()\<close> yields), or a wildcard.
\<close>

datatype occurs_bound = NoBound | Unbounded | Count int

datatype particle =
    XsdElement "string option" "string option" int
  | XsdGroup string occurs_bound "occurs_bound list option" "particle list"
  | XsdAnyElement

section \<open>Constraint handler\<close>

record constraint_handler =
  linkml_classes :: "(string \<times> class_def) list"
  choice_slot_membership :: "(string \<times> string list) list"
  choice_repeat_membership :: "(string \<times> string list) list"

text \<open>
  \<open>choice_is_repeating\<close>, on the \<open>max_occurs\<close> and \<open>occurs\<close> of the group.
\<close>

definition choice_is_repeating :: "particle \<Rightarrow> bool" where
  "choice_is_repeating g =
     (case g of
        XsdGroup model maxo occurs_tuple items \<Rightarrow>
          if maxo = Unbounded \<or> (case maxo of Count n \<Rightarrow> n > 1 | _ \<Rightarrow> False) then True
          else if maxo = NoBound \<and>
                  (case occurs_tuple of
                     None \<Rightarrow> False
                   | Some t \<Rightarrow> t \<noteq> [] \<and> last t = NoBound) then True
          else False
      | _ \<Rightarrow> False)"

text \<open>
  \<open>collect_branch_slots\<close>: the \<open>(slot_name, required)\<close> pairs of the elements below a node.
\<close>

fun collect_branch_slots :: "particle \<Rightarrow> (string \<times> bool) list" where
  "collect_branch_slots (XsdElement name ref_name min_occurs) =
     (let slot_name = local_name (if str_truthy name then name else ref_name)
      in if slot_name \<noteq> [] then [(slot_name, min_occurs \<noteq> 0)] else [])"
| "collect_branch_slots (XsdGroup model maxo occurs_tuple items) =
     concat (map collect_branch_slots items)"
| "collect_branch_slots XsdAnyElement = []"

text \<open>
  \<open>extract_choice_branches\<close>: one branch per item of the choice, the branches of a nested
  choice spliced in, empty branches dropped.
\<close>

fun extract_choice_branches :: "particle \<Rightarrow> (string \<times> bool) list list" where
  "extract_choice_branches (XsdGroup model maxo occurs_tuple items) =
     filter (\<lambda>branch. branch \<noteq> [])
       (concat (map (\<lambda>item.
          case item of
            XsdGroup model' maxo' occurs' items' \<Rightarrow>
              if model' = ''choice'' then extract_choice_branches item
              else [collect_branch_slots item]
          | XsdElement name ref_name min_occurs \<Rightarrow> [collect_branch_slots item]
          | XsdAnyElement \<Rightarrow> []) items))"
| "extract_choice_branches (XsdElement name ref_name min_occurs) = []"
| "extract_choice_branches XsdAnyElement = []"

text \<open>
  \<^verbatim>\<open>
  for x in xs:
      if x not in acc:
          acc.append(x)
  \<close>
  This is also \<open>set.update\<close> on a set kept as the list of its elements.
\<close>

fun append_new :: "'a list \<Rightarrow> 'a list \<Rightarrow> 'a list" where
  "append_new acc [] = acc"
| "append_new acc (x # xs) = append_new (if x \<in> set acc then acc else acc @ [x]) xs"

text \<open>The literal \<open>{"slot_conditions": {slot_name: {"required": True}}}\<close>.\<close>

definition choice_expr :: "string \<Rightarrow> class_expr" where
  "choice_expr slot_name = SlotConditions [(slot_name, [(''required'', PBool True)])]"

text \<open>\<open>membership[class_name].update(universe)\<close> on a \<open>defaultdict(set)\<close>.\<close>

definition membership_update ::
  "string \<Rightarrow> string list \<Rightarrow> (string \<times> string list) list \<Rightarrow> (string \<times> string list) list" where
  "membership_update class_name universe membership =
     AList.update class_name
       (append_new (case map_of membership class_name of None \<Rightarrow> [] | Some names \<Rightarrow> names) universe)
       membership"

definition apply_choice_constraint ::
  "constraint_handler \<Rightarrow> string \<Rightarrow> (string \<times> bool) list list \<Rightarrow> bool \<Rightarrow> constraint_handler" where
  "apply_choice_constraint H class_name branches repeating =
     (if length branches < 2 then H
      else
        let cls = (case map_of (linkml_classes H) class_name of
                     None \<Rightarrow> empty_class | Some c \<Rightarrow> c);
            classes0 = (case map_of (linkml_classes H) class_name of
                          None \<Rightarrow> AList.update class_name empty_class (linkml_classes H)
                        | Some c \<Rightarrow> linkml_classes H);
            slot_sets = map (\<lambda>branch. append_new [] (map fst branch)) branches;
            universe = append_new [] (concat slot_sets);
            classes1 =
              (if list_all (\<lambda>slot_set. length slot_set = 1) slot_sets then
                 let group = append_new [] (map hd slot_sets);
                     existing = (case exactly_one_of cls of None \<Rightarrow> [] | Some es \<Rightarrow> es);
                     existing' = append_new existing (map choice_expr group)
                 in AList.update class_name (cls\<lparr>exactly_one_of := Some existing'\<rparr>) classes0
               else classes0)
        in H\<lparr>linkml_classes := classes1,
              choice_slot_membership :=
                membership_update class_name universe (choice_slot_membership H),
              choice_repeat_membership :=
                (if repeating
                 then membership_update class_name universe (choice_repeat_membership H)
                 else choice_repeat_membership H)\<rparr>)"

text \<open>
  \<open>collect_choice_constraints\<close>. The content of a type is a model group, or something without
  \<open>iter_model\<close> (\<open>None\<close> here).
\<close>

definition constrain_choice :: "string \<Rightarrow> particle \<Rightarrow> constraint_handler \<Rightarrow> constraint_handler" where
  "constrain_choice class_name item H =
     (case item of
        XsdGroup model maxo occurs_tuple items \<Rightarrow>
          if model = ''choice''
          then apply_choice_constraint H class_name (extract_choice_branches item)
                 (choice_is_repeating item)
          else H
      | _ \<Rightarrow> H)"

definition collect_choice_constraints ::
  "constraint_handler \<Rightarrow> string \<Rightarrow> particle option \<Rightarrow> constraint_handler" where
  "collect_choice_constraints H class_name content =
     (case content of
        Some (XsdGroup model maxo occurs_tuple items) \<Rightarrow>
          fold (constrain_choice class_name) items
            (constrain_choice class_name (XsdGroup model maxo occurs_tuple items) H)
      | _ \<Rightarrow> H)"

text \<open>
  The relaxation pass. One step of each inner loop:
  \<^verbatim>\<open>
  slot = attrs.get(slot_name)
  if not slot:
      continue
  slot.pop("required", None)        # first loop
  slot["multivalued"] = True        # second loop
  \<close>
\<close>

definition relax_slot :: "(slot \<Rightarrow> slot) \<Rightarrow> string \<Rightarrow> (string \<times> slot) list \<Rightarrow> (string \<times> slot) list" where
  "relax_slot change slot_name attrs =
     (case map_of attrs slot_name of
        None \<Rightarrow> attrs
      | Some slot \<Rightarrow> if slot = [] then attrs else AList.update slot_name (change slot) attrs)"

definition pop_required :: "slot \<Rightarrow> slot" where
  "pop_required slot = AList.delete ''required'' slot"

definition set_multivalued :: "slot \<Rightarrow> slot" where
  "set_multivalued slot = AList.update ''multivalued'' (PBool True) slot"

text \<open>
  One step of each outer loop. A class without \<open>attributes\<close> gets the default \<open>{}\<close>, in which
  no slot is found.
  \<^verbatim>\<open>
  cls = self.linkml_schema["classes"].get(class_name)
  if not cls:
      continue
  attrs = cls.get("attributes", {})
  for slot_name in slot_names: ...
  \<close>
\<close>

definition relax_class ::
  "(slot \<Rightarrow> slot) \<Rightarrow> string \<times> string list \<Rightarrow> (string \<times> class_def) list \<Rightarrow> (string \<times> class_def) list" where
  "relax_class change entry classes =
     (case entry of (class_name, slot_names) \<Rightarrow>
        (case map_of classes class_name of
           None \<Rightarrow> classes
         | Some cls \<Rightarrow>
             if \<not> class_truthy cls then classes
             else (case attributes cls of
                     None \<Rightarrow> classes
                   | Some attrs \<Rightarrow>
                       AList.update class_name
                         (cls\<lparr>attributes := Some (fold (relax_slot change) slot_names attrs)\<rparr>)
                         classes)))"

definition relax_choice_constraints :: "constraint_handler \<Rightarrow> constraint_handler" where
  "relax_choice_constraints H =
     H\<lparr>linkml_classes :=
         fold (relax_class set_multivalued) (choice_repeat_membership H)
           (fold (relax_class pop_required) (choice_slot_membership H) (linkml_classes H))\<rparr>"

text \<open>Reading the model: the slot of a class, and the slots a membership map records for a class.\<close>

definition slot_of :: "(string \<times> class_def) list \<Rightarrow> string \<Rightarrow> string \<Rightarrow> slot option" where
  "slot_of classes class_name slot_name =
     (case map_of classes class_name of
        None \<Rightarrow> None
      | Some cls \<Rightarrow> (case attributes cls of None \<Rightarrow> None | Some attrs \<Rightarrow> map_of attrs slot_name))"

definition members :: "(string \<times> string list) list \<Rightarrow> string \<Rightarrow> string set" where
  "members membership class_name =
     (\<Union>entry\<in>set membership. if fst entry = class_name then set (snd entry) else {})"

definition branch_slots :: "(string \<times> bool) list list \<Rightarrow> string set" where
  "branch_slots branches = (\<Union>branch\<in>set branches. fst ` set branch)"

text \<open>What one step of an inner loop does to the slot it finds: nothing when the slot is empty.\<close>

definition guarded :: "(slot \<Rightarrow> slot) \<Rightarrow> slot \<Rightarrow> slot" where
  "guarded change slot = (if slot = [] then slot else change slot)"

text \<open>Two class dictionaries that differ at most inside their slots.\<close>

definition same_outside_slots :: "class_def \<Rightarrow> class_def \<Rightarrow> bool" where
  "same_outside_slots cls cls' =
     (is_a cls' = is_a cls \<and> exactly_one_of cls' = exactly_one_of cls \<and>
      class_fields cls' = class_fields cls \<and>
      map_option (map fst) (attributes cls') = map_option (map fst) (attributes cls))"

text \<open>What one step of an outer loop does to the class it finds.\<close>

definition relax_cls :: "(slot \<Rightarrow> slot) \<Rightarrow> string list \<Rightarrow> class_def \<Rightarrow> class_def" where
  "relax_cls change names cls =
     (case attributes cls of
        None \<Rightarrow> cls
      | Some attrs \<Rightarrow> cls\<lparr>attributes := Some (fold (relax_slot change) names attrs)\<rparr>)"

text \<open>The class of the specification's end-to-end scenario, and choice groups over its slots.\<close>

definition sample_class :: class_def where
  "sample_class = empty_class\<lparr>attributes := Some
     [(''name'', [(''range'', PStr ''string''), (''required'', PBool True)]),
      (''tag'', [(''range'', PStr ''string''), (''multivalued'', PBool True)]),
      (''weight'', [(''range'', PStr ''float''), (''required'', PBool True)]),
      (''volume'', [(''range'', PStr ''float''), (''required'', PBool True)])]\<rparr>"

definition sample_handler :: constraint_handler where
  "sample_handler =
     \<lparr>linkml_classes = [(''Sample'', sample_class), (''Other'', empty_class)],
      choice_slot_membership = [], choice_repeat_membership = []\<rparr>"

definition weight_or_volume :: "occurs_bound \<Rightarrow> particle" where
  "weight_or_volume maxo =
     XsdGroup ''choice'' maxo None
       [XsdElement (Some ''weight'') None 1, XsdElement (Some ''volume'') None 1]"

definition weight_only :: "occurs_bound \<Rightarrow> particle" where
  "weight_only maxo = XsdGroup ''choice'' maxo None [XsdElement (Some ''weight'') None 1]"

definition collected_sample :: constraint_handler where
  "collected_sample =
     collect_choice_constraints sample_handler ''Sample'' (Some (weight_or_volume Unbounded))"


text \<open>
  A group as the schema library delivers it: \<open>occurs\<close> holds \<open>min_occurs\<close> and
  \<open>max_occurs\<close>, and \<open>max_occurs\<close> is \<open>None\<close> for \<open>maxOccurs="unbounded"\<close>.
\<close>

definition occurring :: "string \<Rightarrow> int \<Rightarrow> occurs_bound \<Rightarrow> particle list \<Rightarrow> particle" where
  "occurring model min_occurs max_occurs items =
     XsdGroup model max_occurs (Some [Count min_occurs, max_occurs]) items"

text \<open>
  The choice between \<open>weight\<close> and \<open>volume\<close>, the choice with the single branch
  \<open>weight\<close>, a content model with a group as its second item, and a content model with
  the group below an optional sequence.
\<close>

definition sample_choice :: "occurs_bound \<Rightarrow> particle" where
  "sample_choice max_occurs =
     occurring ''choice'' 1 max_occurs
       [XsdElement (Some ''weight'') None 1, XsdElement (Some ''volume'') None 1]"

definition sample_single_choice :: "occurs_bound \<Rightarrow> particle" where
  "sample_single_choice max_occurs =
     occurring ''choice'' 1 max_occurs [XsdElement (Some ''weight'') None 1]"

definition sample_content :: "particle \<Rightarrow> particle" where
  "sample_content item =
     occurring ''sequence'' 1 (Count 1) [XsdElement (Some ''name'') None 1, item]"

definition nested_content :: "particle \<Rightarrow> particle" where
  "nested_content item =
     occurring ''sequence'' 1 (Count 1)
       [XsdElement (Some ''name'') None 1,
        occurring ''sequence'' 0 (Count 1) [XsdElement (Some ''tag'') None 0, item]]"

section \<open>Strings\<close>

text \<open>
  The characters \<open>str.strip\<close> and \<open>str.split\<close> treat as whitespace, and those at which
  \<open>str.splitlines\<close> breaks a line (\<open>\r\n\<close> counts once), among the ASCII characters.
\<close>

definition is_space :: "char \<Rightarrow> bool" where
  "is_space c =
     (c \<in> set [CHR 0x09, CHR 0x0A, CHR 0x0B, CHR 0x0C, CHR 0x0D,
                CHR 0x1C, CHR 0x1D, CHR 0x1E, CHR 0x1F, CHR 0x20])"

definition is_linebreak :: "char \<Rightarrow> bool" where
  "is_linebreak c =
     (c \<in> set [CHR 0x0A, CHR 0x0B, CHR 0x0C, CHR 0x0D, CHR 0x1C, CHR 0x1D, CHR 0x1E])"

definition strip :: "string \<Rightarrow> string" where
  "strip s = rev (dropWhile is_space (rev (dropWhile is_space s)))"

fun splitlines_from :: "string \<Rightarrow> string \<Rightarrow> string list" where
  "splitlines_from cur [] = (if cur = [] then [] else [rev cur])"
| "splitlines_from cur [c] =
     (if is_linebreak c then [rev cur] else [rev (c # cur)])"
| "splitlines_from cur (c # d # rest) =
     (if c = CHR 0x0D \<and> d = CHR 0x0A then rev cur # splitlines_from [] rest
      else if is_linebreak c then rev cur # splitlines_from [] (d # rest)
      else splitlines_from (c # cur) (d # rest))"

definition splitlines :: "string \<Rightarrow> string list" where
  "splitlines s = splitlines_from [] s"

text \<open>\<open>s.split()\<close>: the maximal runs of non-whitespace characters.\<close>

fun split_from :: "string \<Rightarrow> string \<Rightarrow> string list" where
  "split_from cur [] = (if cur = [] then [] else [rev cur])"
| "split_from cur (c # rest) =
     (if is_space c then (if cur = [] then split_from [] rest else rev cur # split_from [] rest)
      else split_from (c # cur) rest)"

definition split_whitespace :: "string \<Rightarrow> string list" where
  "split_whitespace s = split_from [] s"

text \<open>\<open>s.lower()\<close> on ASCII letters; every other character is kept.\<close>

definition lower_char :: "char \<Rightarrow> char" where
  "lower_char c =
     (let n = (of_char c :: nat) in if 65 \<le> n \<and> n \<le> 90 then char_of (n + 32) else c)"

definition lower :: "string \<Rightarrow> string" where
  "lower s = map lower_char s"

text \<open>\<open>s.replace(a, b)\<close> for single characters.\<close>

definition replace_char :: "char \<Rightarrow> char \<Rightarrow> string \<Rightarrow> string" where
  "replace_char a b s = map (\<lambda>c. if c = a then b else c) s"

text \<open>\<open>"\n".join(lines)\<close>.\<close>

fun join_lines :: "string list \<Rightarrow> string" where
  "join_lines [] = []"
| "join_lines [x] = x"
| "join_lines (x # y # rest) = x @ CHR 0x0A # join_lines (y # rest)"

text \<open>\<open>str(n)\<close> for a natural number.\<close>

fun str_of_nat :: "nat \<Rightarrow> string" where
  "str_of_nat n =
     (if n < 10 then [char_of (48 + n)]
      else str_of_nat (n div 10) @ [char_of (48 + n mod 10)])"

declare str_of_nat.simps [simp del]

section \<open>Documentation and metadata merger\<close>

datatype py_error = TypeError | AttributeError

definition TIER_SUBSET_LOOKUP :: "(string \<times> string) list" where
  "TIER_SUBSET_LOOKUP = [(''1'', ''NBO_Tier1''), (''2'', ''NBO_Tier2''), (''3'', ''NBO_Tier3'')]"

text \<open>
  \<open>split_doc_metadata\<close>. The state of the loop is the metadata (a \<open>defaultdict(list)\<close>, in
  insertion order) and the description lines.
\<close>

definition split_doc_line ::
  "string \<Rightarrow> (string \<times> string list) list \<times> string list
     \<Rightarrow> (string \<times> string list) list \<times> string list" where
  "split_doc_line raw_line st =
     (case st of (metadata, description_lines) \<Rightarrow>
        let line = strip raw_line in
        if line = [] then st
        else if CHR ''='' \<in> set line then
          let key = strip (takeWhile (\<lambda>c. c \<noteq> CHR ''='') line);
              value = strip (tl (dropWhile (\<lambda>c. c \<noteq> CHR ''='') line))
          in if key = [] then (metadata, description_lines @ [line])
             else if lower key = ''description'' then (metadata, description_lines @ [value])
             else (AList.update key
                     ((case map_of metadata key of None \<Rightarrow> [] | Some vs \<Rightarrow> vs) @ [value])
                     metadata,
                   description_lines)
        else (metadata, description_lines @ [line]))"

definition split_doc_metadata :: "string \<Rightarrow> string \<times> (string \<times> string list) list" where
  "split_doc_metadata doc_text =
     (case fold split_doc_line (splitlines doc_text) ([], []) of
        (metadata, description_lines) \<Rightarrow> (strip (join_lines description_lines), metadata))"

text \<open>
  \<open>apply_metadata_to_target\<close>. The inner loop over the tokens of the tier values:
  \<^verbatim>\<open>
  subset_name = TIER_SUBSET_LOOKUP.get(token.strip())
  if subset_name and subset_name not in subset_list:
      subset_list.append(subset_name)
  \<close>
\<close>

definition add_tier_token :: "string \<Rightarrow> pyval list \<Rightarrow> pyval list" where
  "add_tier_token token subset_list =
     (case map_of TIER_SUBSET_LOOKUP (strip token) of
        None \<Rightarrow> subset_list
      | Some subset_name \<Rightarrow>
          if subset_name \<noteq> [] \<and> PStr subset_name \<notin> set subset_list
          then subset_list @ [PStr subset_name] else subset_list)"

definition add_tier_value :: "string \<Rightarrow> pyval list \<Rightarrow> pyval list" where
  "add_tier_value raw_value subset_list =
     (if raw_value = [] then subset_list
      else fold add_tier_token (split_whitespace (replace_char CHR '','' CHR '' '' raw_value))
             subset_list)"

text \<open>
  The loop over the values of one metadata key:
  \<^verbatim>\<open>
  for idx, value in enumerate(values):
      ann_key = ann_base if idx == 0 and ann_base not in annotations else f"{ann_base}_{idx}"
      annotations[ann_key] = {"tag": key, "value": value}
  \<close>
\<close>

definition annotation_entry :: "string \<Rightarrow> string \<Rightarrow> pyval" where
  "annotation_entry tag_name v = PDict [(''tag'', PStr tag_name), (''value'', PStr v)]"

fun annotate_values :: "string \<Rightarrow> string \<Rightarrow> nat \<Rightarrow> string list \<Rightarrow> pydict \<Rightarrow> pydict" where
  "annotate_values key ann_base idx [] annotations = annotations"
| "annotate_values key ann_base idx (v # values) annotations =
     (let ann_key = (if idx = 0 \<and> map_of annotations ann_base = None then ann_base
                     else ann_base @ ''_'' @ str_of_nat idx)
      in annotate_values key ann_base (Suc idx) values
           (AList.update ann_key (annotation_entry key v) annotations))"

definition annotate_key :: "string \<times> string list \<Rightarrow> pydict \<Rightarrow> pydict" where
  "annotate_key item annotations =
     (case item of (key, values) \<Rightarrow>
        if values = [] then annotations
        else annotate_values key (replace_char CHR '' '' CHR ''_'' key) 0 values annotations)"

text \<open>
  A target is a class or slot dictionary. Its \<open>in_subset\<close> is a list and its \<open>annotations\<close>
  a dictionary whenever these passes made them, and on such targets the definition follows
  the source. Any other value stored there gives an error here; the source raises on it as
  well (\<open>AttributeError\<close> or \<open>TypeError\<close>), unless \<open>in_subset\<close> is a string in which every
  tier name occurs, which it leaves alone.
\<close>

definition apply_metadata_to_target ::
  "pydict \<Rightarrow> (string \<times> string list) list \<Rightarrow> py_error + pydict" where
  "apply_metadata_to_target target metadata =
     (if metadata = [] then Inr target
      else
        let tier_values = concat (map snd (filter (\<lambda>item. lower (fst item) = ''tier'') metadata));
            metadata' = filter (\<lambda>item. lower (fst item) \<noteq> ''tier'') metadata;
            tiered =
              (if tier_values \<noteq> [] then
                 (case map_of target ''in_subset'' of
                    None \<Rightarrow>
                      Inr (AList.update ''in_subset'' (PList (fold add_tier_value tier_values []))
                             target)
                  | Some (PList subset_list) \<Rightarrow>
                      Inr (AList.update ''in_subset''
                             (PList (fold add_tier_value tier_values subset_list)) target)
                  | Some other \<Rightarrow> Inl AttributeError)
               else Inr target)
        in case tiered of
             Inl e \<Rightarrow> Inl e
           | Inr target1 \<Rightarrow>
               if metadata' = [] then Inr target1
               else (case map_of target1 ''annotations'' of
                       None \<Rightarrow>
                         Inr (AList.update ''annotations''
                                (PDict (fold annotate_key metadata' [])) target1)
                     | Some (PDict annotations) \<Rightarrow>
                         Inr (AList.update ''annotations''
                                (PDict (fold annotate_key metadata' annotations)) target1)
                     | Some other \<Rightarrow> Inl TypeError))"

text \<open>
  \<open>apply_doc_metadata\<close>. The documentation value is \<open>None\<close> or the string
  \<open>get_documentation\<close> returned; \<open>coerce_description\<close> strips it.
\<close>

definition coerce_description :: "string option \<Rightarrow> string" where
  "coerce_description v = (case v of None \<Rightarrow> [] | Some s \<Rightarrow> strip s)"

definition apply_doc_metadata :: "pydict \<Rightarrow> string option \<Rightarrow> py_error + pydict" where
  "apply_doc_metadata target doc_value =
     (if \<not> str_truthy doc_value then Inr target
      else
        let clean_text = coerce_description doc_value in
        if clean_text = [] then Inr target
        else (case split_doc_metadata clean_text of
                (description, metadata) \<Rightarrow>
                  apply_metadata_to_target
                    (if description \<noteq> [] then AList.update ''description'' (PStr description) target
                     else target)
                    metadata))"

text \<open>The documentation text of the specification's example.\<close>

definition example_doc :: string where
  "example_doc = ''tier = 1'' @ [CHR 0x0A] @ ''SomeTag = foo'' @ [CHR 0x0A] @ ''This is the description.''"

text \<open>Two documentation blocks that repeat one tag, merged into the same target in turn.\<close>

definition first_doc :: string where
  "first_doc = ''K = a'' @ [CHR 0x0A] @ ''K = b''"

definition second_doc :: string where
  "second_doc = ''K = c'' @ [CHR 0x0A] @ ''K = d''"

text \<open>
  \<open>record_appinfo_entry\<close>. A node of the annotation's element tree has a tag, a text and
  children.
\<close>

datatype xml_node = XmlNode string "string option" "xml_node list"

definition record_appinfo_entry :: "pydict \<Rightarrow> xml_node option \<Rightarrow> py_error + pydict" where
  "record_appinfo_entry target node =
     (case node of
        None \<Rightarrow> Inr target
      | Some (XmlNode tag_name text children) \<Rightarrow>
          let name = local_name (Some tag_name);
              stripped = strip (case text of None \<Rightarrow> [] | Some s \<Rightarrow> s);
              v = (if stripped = [] then ''true'' else stripped);
              record_in = (\<lambda>annotations.
                 let key = (if map_of annotations name = None then name
                            else name @ ''_'' @ str_of_nat (length annotations))
                 in AList.update ''annotations''
                      (PDict (AList.update key (annotation_entry name v) annotations)) target)
          in case map_of target ''annotations'' of
               None \<Rightarrow> Inr (record_in [])
             | Some (PDict annotations) \<Rightarrow> Inr (record_in annotations)
             | Some other \<Rightarrow> Inl TypeError)"

text \<open>
  \<open>apply_appinfo_metadata\<close>. An annotation is read through \<open>get_documentation\<close> (its
  result is \<open>annotation_documentation\<close>) and through the \<open>appinfo\<close> elements below its \<open>elem\<close>
  (\<open>None\<close> when it has no \<open>elem\<close>). The children of a wrapper named \<open>xsdfu\<close> are recorded in
  its place. An exception ends the pass silently (\<open>except Exception: pass\<close>).
\<close>

record xsd_annotation =
  annotation_documentation :: "string option"
  annotation_appinfo :: "xml_node list option"

definition appinfo_entries :: "xml_node \<Rightarrow> xml_node list" where
  "appinfo_entries appinfo =
     (case appinfo of XmlNode tag_name text children \<Rightarrow>
        concat (map (\<lambda>node.
          case node of XmlNode node_tag node_text node_children \<Rightarrow>
            if lower (local_name (Some node_tag)) = ''xsdfu'' then node_children else [node])
          children))"

fun record_appinfo_entries :: "pydict \<Rightarrow> xml_node list \<Rightarrow> pydict" where
  "record_appinfo_entries target [] = target"
| "record_appinfo_entries target (node # nodes) =
     (case record_appinfo_entry target (Some node) of
        Inl e \<Rightarrow> target
      | Inr target' \<Rightarrow> record_appinfo_entries target' nodes)"

definition apply_appinfo_metadata :: "pydict \<Rightarrow> xsd_annotation option \<Rightarrow> pydict" where
  "apply_appinfo_metadata target annotation =
     (case annotation of
        None \<Rightarrow> target
      | Some a \<Rightarrow>
          (case annotation_appinfo a of
             None \<Rightarrow> target
           | Some appinfos \<Rightarrow>
               record_appinfo_entries target (concat (map appinfo_entries appinfos))))"

section \<open>Source types and the primitive type mapper\<close>

text \<open>
  An attribute's type as the passes read it: a plain type name, or a type object with its
  \<open>name\<close>, its \<open>base_type\<close>, its \<open>enumeration\<close> (the values as strings), its pattern facet
  (with \<open>pattern\<close>, and the \<open>pattern\<close> of each entry of \<open>patterns\<close> and \<open>regexps\<close>) and its
  \<open>min_value\<close> and \<open>max_value\<close>. The chain of base types of a parsed schema is finite.
\<close>

record pattern_facet =
  facet_pattern :: "string option"
  facet_patterns :: "string option list"
  facet_regexps :: "string option list"

record type_facets =
  enumeration :: "string list"
  pattern_of :: "pattern_facet option"
  min_value :: "pyval option"
  max_value :: "pyval option"

datatype xsd_type =
    XsdStr string
  | XsdObj "string option" "xsd_type option" type_facets

definition PRIMITIVE_RANGES :: "string set" where
  "PRIMITIVE_RANGES =
     {''string'', ''integer'', ''float'', ''boolean'', ''date'', ''time'', ''datetime'', ''uri''}"

definition XSD_TO_LINKML_TYPE_MAP :: "(string \<times> string) list" where
  "XSD_TO_LINKML_TYPE_MAP =
     [(''string'', ''string''), (''token'', ''string''), (''normalizedString'', ''string''),
      (''anyURI'', ''uri''), (''float'', ''float''), (''double'', ''float''),
      (''decimal'', ''float''), (''integer'', ''integer''), (''int'', ''integer''),
      (''long'', ''integer''), (''short'', ''integer''), (''byte'', ''integer''),
      (''nonNegativeInteger'', ''integer''), (''positiveInteger'', ''integer''),
      (''unsignedLong'', ''integer''), (''unsignedInt'', ''integer''),
      (''unsignedShort'', ''integer''), (''unsignedByte'', ''integer''),
      (''boolean'', ''boolean''), (''date'', ''date''), (''dateTime'', ''datetime''),
      (''time'', ''time''), (''ID'', ''string''), (''IDREF'', ''string''),
      (''IDREFS'', ''string'')]"

text \<open>
  \<open>map_xsd_primitive\<close> on a type other than \<open>None\<close>. The source's test
  \<open>base_type is not xsd_type\<close> is the inequality of the base and the type.
\<close>

fun map_xsd_type :: "xsd_type \<Rightarrow> string" where
  "map_xsd_type (XsdStr s) =
     (let type_name = local_name (Some s) in
      if type_name = [] then ''string''
      else (case map_of XSD_TO_LINKML_TYPE_MAP type_name of
              Some primitive \<Rightarrow> primitive
            | None \<Rightarrow> ''string''))"
| "map_xsd_type (XsdObj name base_type facets) =
     (if str_truthy name then
        (let type_name = local_name name in
         if type_name = [] then ''string''
         else (case map_of XSD_TO_LINKML_TYPE_MAP type_name of
                 Some primitive \<Rightarrow> primitive
               | None \<Rightarrow>
                   (case base_type of
                      None \<Rightarrow> ''string''
                    | Some base \<Rightarrow>
                        if base \<noteq> XsdObj name base_type facets then
                          (let mapped = map_xsd_type base in
                           if mapped \<noteq> [] then mapped else ''string'')
                        else ''string'')))
      else (case base_type of
              None \<Rightarrow> ''string''
            | Some base \<Rightarrow> map_xsd_type base))"

definition map_xsd_primitive :: "xsd_type option \<Rightarrow> string" where
  "map_xsd_primitive xsd_type =
     (case xsd_type of None \<Rightarrow> ''string'' | Some t \<Rightarrow> map_xsd_type t)"

text \<open>
  The specification's reading: the names along the chain of base types (an anonymous type
  has none), and the primitive of the first of them found in the table. A type whose name
  has an empty local part ends the search.
\<close>

fun type_chain :: "xsd_type \<Rightarrow> xsd_type list" where
  "type_chain (XsdStr s) = [XsdStr s]"
| "type_chain (XsdObj name base_type facets) =
     XsdObj name base_type facets # (case base_type of None \<Rightarrow> [] | Some base \<Rightarrow> type_chain base)"

fun name_of_type :: "xsd_type \<Rightarrow> string option" where
  "name_of_type (XsdStr s) = Some (local_name (Some s))"
| "name_of_type (XsdObj name base_type facets) =
     (if str_truthy name then Some (local_name name) else None)"

fun first_mapped_name :: "string option list \<Rightarrow> string" where
  "first_mapped_name [] = ''string''"
| "first_mapped_name (None # names) = first_mapped_name names"
| "first_mapped_name (Some n # names) =
     (if n = [] then ''string''
      else (case map_of XSD_TO_LINKML_TYPE_MAP n of
              Some primitive \<Rightarrow> primitive
            | None \<Rightarrow> first_mapped_name names))"

section \<open>Slot builder\<close>

text \<open>
  \<open>sanitize_enum_name\<close>: every maximal run of characters outside \<open>[A-Za-z0-9_]\<close> becomes
  one underscore.
\<close>

definition is_word_char :: "char \<Rightarrow> bool" where
  "is_word_char c =
     (let n = (of_char c :: nat)
      in (65 \<le> n \<and> n \<le> 90) \<or> (97 \<le> n \<and> n \<le> 122) \<or> (48 \<le> n \<and> n \<le> 57) \<or> c = CHR ''_'')"

fun sub_runs :: "bool \<Rightarrow> string \<Rightarrow> string" where
  "sub_runs in_run [] = []"
| "sub_runs in_run (c # cs) =
     (if is_word_char c then c # sub_runs False cs
      else if in_run then sub_runs True cs
      else CHR ''_'' # sub_runs True cs)"

definition sanitize_enum_name :: "string \<Rightarrow> string \<Rightarrow> string" where
  "sanitize_enum_name class_name attr_name =
     sub_runs False (''Enum_'' @ class_name @ ''_'' @ attr_name)"

text \<open>
  \<open>ensure_enum_for_slot\<close>, on the \<open>enums\<close> dictionary of the schema.
\<close>

definition ensure_enum_for_slot ::
  "pydict \<Rightarrow> string \<Rightarrow> string \<Rightarrow> string list \<Rightarrow> string \<times> pydict" where
  "ensure_enum_for_slot enums class_name attr_name vals =
     (let enum_name = sanitize_enum_name class_name attr_name
      in (enum_name,
          if map_of enums enum_name = None
          then AList.update enum_name
                 (PDict [(''permissible_values'',
                          PDict (fold (\<lambda>v acc. AList.update v (PDict []) acc) vals []))])
                 enums
          else enums))"

text \<open>An attribute declaration: its \<open>type\<close>, \<open>annotation\<close> and \<open>use\<close>.\<close>

record xsd_attribute =
  attr_type :: "xsd_type option"
  attr_annotation :: "xsd_annotation option"
  attr_use :: "string option"

record slot_builder =
  builder_enums :: pydict
  builder_resolver :: reference_resolver
  attr_description_overrides :: "(string \<times> (string \<times> string) list) list"

definition type_name_of :: "xsd_type option \<Rightarrow> string option" where
  "type_name_of t = (case t of Some (XsdObj name base_type facets) \<Rightarrow> name | _ \<Rightarrow> None)"

definition facets_of :: "xsd_type option \<Rightarrow> type_facets" where
  "facets_of t =
     (case t of
        Some (XsdObj name base_type facets) \<Rightarrow> facets
      | _ \<Rightarrow> \<lparr>enumeration = [], pattern_of = None, min_value = None, max_value = None\<rparr>)"

text \<open>
  \<^verbatim>\<open>
  pattern_value = getattr(pattern_facet, "pattern", None)
  if not pattern_value: ... facet_patterns[0] ...
  if not pattern_value: ... facet_regexps[0] ...
  \<close>
\<close>

definition pattern_value_of :: "pattern_facet \<Rightarrow> string option" where
  "pattern_value_of pf =
     (let v1 = facet_pattern pf;
          v2 = (if \<not> str_truthy v1
                then (case facet_patterns pf of [] \<Rightarrow> v1 | p # ps \<Rightarrow> p) else v1);
          v3 = (if \<not> str_truthy v2
                then (case facet_regexps pf of [] \<Rightarrow> v2 | p # ps \<Rightarrow> p) else v2)
      in v3)"

definition get_documentation :: "xsd_annotation option \<Rightarrow> string option" where
  "get_documentation annotation =
     (case annotation of None \<Rightarrow> None | Some a \<Rightarrow> annotation_documentation a)"

text \<open>\<open>if cond: d[key] = v\<close>.\<close>

definition set_if :: "bool \<Rightarrow> string \<Rightarrow> pyval \<Rightarrow> pydict \<Rightarrow> pydict" where
  "set_if cond key v d = (if cond then AList.update key v d else d)"

text \<open>
  \<open>slot_from_attribute\<close>, returning the slot and the \<open>enums\<close> dictionary of the schema.
\<close>

definition slot_from_attribute ::
  "slot_builder \<Rightarrow> string \<Rightarrow> string \<Rightarrow> xsd_attribute \<Rightarrow> py_error + (slot \<times> pydict)" where
  "slot_from_attribute B owner_class attr_name attr_obj =
     (let t = attr_type attr_obj;
          slot0 = [(''range'', PStr (map_xsd_primitive t))];
          type_name_local = local_name (type_name_of t);
          attr_name_lower = lower attr_name;
          target_candidate =
            (if attr_name_lower = ''id'' \<and> class_is_ref_like (builder_resolver B) (Some owner_class)
             then reference_target_for_class (builder_resolver B) owner_class (Some type_name_local)
             else None);
          slot1 = (case target_candidate of
                     Some candidate \<Rightarrow>
                       if candidate \<noteq> [] then AList.update ''range'' (PStr candidate) slot0
                       else slot0
                   | None \<Rightarrow> slot0);
          doc = get_documentation (attr_annotation attr_obj);
          custom_doc =
            (case map_of (attr_description_overrides B) owner_class of
               None \<Rightarrow> None
             | Some overrides \<Rightarrow> map_of overrides attr_name)
      in case apply_doc_metadata slot1 doc of
           Inl e \<Rightarrow> Inl e
         | Inr slot2 \<Rightarrow>
             let slot3 = (case custom_doc of
                            Some d \<Rightarrow> if d \<noteq> [] then AList.update ''description'' (PStr d) slot2
                                      else slot2
                          | None \<Rightarrow> slot2);
                 slot4 = apply_appinfo_metadata slot3 (attr_annotation attr_obj);
                 enum_values = enumeration (facets_of t);
                 enum = (if enum_values \<noteq> []
                         then ensure_enum_for_slot (builder_enums B) owner_class attr_name enum_values
                         else ([], builder_enums B));
                 slot5 = set_if (enum_values \<noteq> []) ''range'' (PStr (fst enum)) slot4;
                 pattern_value = (case pattern_of (facets_of t) of
                                    None \<Rightarrow> None | Some pf \<Rightarrow> pattern_value_of pf);
                 slot6 = (case pattern_value of
                            Some p \<Rightarrow> set_if (p \<noteq> []) ''pattern'' (PStr p) slot5
                          | None \<Rightarrow> slot5);
                 slot7 = (case min_value (facets_of t) of
                            Some v \<Rightarrow> AList.update ''minimum_value'' v slot6 | None \<Rightarrow> slot6);
                 slot8 = (case max_value (facets_of t) of
                            Some v \<Rightarrow> AList.update ''maximum_value'' v slot7 | None \<Rightarrow> slot7);
                 slot9 = set_if (attr_use attr_obj = Some ''required'') ''required'' (PBool True) slot8;
                 slot10 = set_if (attr_name_lower = ''id'' \<or>
                                  (type_name_local \<noteq> [] \<and> endswith type_name_local ''ID''))
                            ''identifier'' (PBool True) slot9
             in Inr (slot10, snd enum))"

text \<open>
  A schema with the class \<open>Image\<close> and its reference class \<open>ImageRef\<close>, and an \<open>id\<close>
  attribute of type \<open>ImageID\<close> whose type carries the given enumeration values.
\<close>

definition image_ref_builder :: slot_builder where
  "image_ref_builder =
     \<lparr>builder_enums = [],
      builder_resolver =
        \<lparr>schema_classes =
           [(''Image'', empty_class\<lparr>class_fields := [(''description'', PStr ''An image'')]\<rparr>),
            (''ImageRef'', empty_class\<lparr>is_a := Some ''Reference''\<rparr>)],
         inheritance_map = [],
         known_class_names = [''Image'', ''ImageRef'']\<rparr>,
      attr_description_overrides = []\<rparr>"

definition plain_facets :: type_facets where
  "plain_facets = \<lparr>enumeration = [], pattern_of = None, min_value = None, max_value = None\<rparr>"

definition id_attribute :: "string list \<Rightarrow> xsd_attribute" where
  "id_attribute vals =
     \<lparr>attr_type = Some (XsdObj (Some ''{http://example.org/ns}ImageID'')
         (Some (XsdStr ''xs:string'')) (plain_facets\<lparr>enumeration := vals\<rparr>)),
      attr_annotation = None, attr_use = Some ''required''\<rparr>"

section \<open>Identity processor\<close>

text \<open>\<open>s.split(c)\<close> for a single character: the pieces between its occurrences, at least one.\<close>

fun split_at :: "char \<Rightarrow> string \<Rightarrow> string \<Rightarrow> string list" where
  "split_at c cur [] = [rev cur]"
| "split_at c cur (x # xs) =
     (if x = c then rev cur # split_at c [] xs else split_at c (x # cur) xs)"

definition split_char :: "char \<Rightarrow> string \<Rightarrow> string list" where
  "split_char c s = split_at c [] s"

text \<open>\<open>path.replace("//", "/")\<close>.\<close>

fun replace_double_slash :: "string \<Rightarrow> string" where
  "replace_double_slash [] = []"
| "replace_double_slash [c] = [c]"
| "replace_double_slash (c # d # rest) =
     (if c = CHR ''/'' \<and> d = CHR ''/'' then CHR ''/'' # replace_double_slash rest
      else c # replace_double_slash (d # rest))"

text \<open>
  \<^verbatim>\<open>
  segments = [seg for seg in path.replace("//", "/").split("/") if seg and seg != "."]
  \<close>
\<close>

definition path_segments :: "string \<Rightarrow> string list" where
  "path_segments path =
     filter (\<lambda>seg. seg \<noteq> [] \<and> seg \<noteq> ''.'') (split_char CHR ''/'' (replace_double_slash path))"

text \<open>
  The slot a field path names:
  \<^verbatim>\<open>
  field_segment = field_path.split("/")[-1]
  if field_segment.startswith("@"):
      field_segment = field_segment[1:]
  ... local_name(field_segment)
  \<close>
\<close>

definition field_slot_name :: "string \<Rightarrow> string" where
  "field_slot_name field_path =
     (let field_segment = last (split_char CHR ''/'' field_path);
          field_segment = (case field_segment of
                             c # rest \<Rightarrow> if c = CHR ''@'' then rest else field_segment
                           | [] \<Rightarrow> field_segment)
      in local_name (Some field_segment))"

text \<open>
  An identity constraint as the pass reads it: the \<open>path\<close> of its selector (\<open>None\<close> when it
  has no selector), the \<open>path\<close> of each of its fields, and for a keyref its \<open>refer\<close>: the
  \<open>name\<close> of the referred constraint, and the text \<open>str\<close> gives for it.
\<close>

record xsd_refer =
  refer_name :: "string option"
  refer_str :: string

datatype xsd_identity =
    XsdKey "string option" "string list"
  | XsdUnique "string option" "string list"
  | XsdKeyref "xsd_refer option" "string option" "string list"
  | XsdOtherIdentity

text \<open>
  The processor holds the reference resolver and the callbacks \<open>add_attribute\<close> and
  \<open>add_unique_key\<close> of the converter. The callbacks change the schema the resolver reads and
  may raise; the schema is the state \<open>'s\<close>, and \<open>resolver_of\<close> is the resolver's view of it.
\<close>

record 's identity_processor =
  resolver_of :: "'s \<Rightarrow> reference_resolver"
  add_attribute :: "string \<Rightarrow> string \<Rightarrow> slot \<Rightarrow> 's \<Rightarrow> py_error + 's"
  add_unique_key :: "string \<Rightarrow> string \<Rightarrow> string list \<Rightarrow> 's \<Rightarrow> py_error + 's"

type_synonym key_target_map = "(string \<times> string list) list"

text \<open>The loop over the selector paths of a key or unique constraint.\<close>

fun register_key_paths ::
  "'s identity_processor \<Rightarrow> string \<Rightarrow> string list \<Rightarrow> string list \<Rightarrow> key_target_map \<times> 's
     \<Rightarrow> py_error + (key_target_map \<times> 's)" where
  "register_key_paths P key_local_name slot_names [] acc = Inr acc"
| "register_key_paths P key_local_name slot_names (raw_path # paths) (key_target_map, st) =
     (let path = strip raw_path;
          segments = path_segments path;
          target_segment = last segments;
          target_class = local_name (Some target_segment)
      in if path = [] \<or> segments = [] \<or> target_segment = ''*'' \<or> target_segment = ''.''
            \<or> target_class = []
         then register_key_paths P key_local_name slot_names paths (key_target_map, st)
         else (case add_unique_key P target_class key_local_name slot_names st of
                 Inl e \<Rightarrow> Inl e
               | Inr st' \<Rightarrow>
                   register_key_paths P key_local_name slot_names paths
                     (AList.update key_local_name
                        (append_new (case map_of key_target_map key_local_name of
                                       None \<Rightarrow> [] | Some cs \<Rightarrow> cs) [target_class])
                        key_target_map,
                      st')))"

definition process_key ::
  "'s identity_processor \<Rightarrow> string \<Rightarrow> string option \<Rightarrow> string list \<Rightarrow> key_target_map \<times> 's
     \<Rightarrow> py_error + (key_target_map \<times> 's)" where
  "process_key P ident_name selector field_paths acc =
     (case selector of
        None \<Rightarrow> Inr acc
      | Some selector_path \<Rightarrow>
          let selector_paths =
                (if selector_path \<noteq> [] then map strip (split_char CHR ''|'' selector_path)
                 else []);
              selector_paths = (if selector_paths = [] then [selector_path] else selector_paths);
              slot_names = filter (\<lambda>n. n \<noteq> [])
                             (map field_slot_name (filter (\<lambda>p. p \<noteq> []) field_paths))
          in if slot_names = [] then Inr acc
             else register_key_paths P (local_name (Some ident_name)) slot_names selector_paths acc)"

text \<open>The loop over the fields of a keyref.\<close>

definition keyref_slot_def :: "string \<Rightarrow> slot" where
  "keyref_slot_def range_target =
     [(''range'', PStr range_target),
      (''annotations'',
         PDict [(''references_'' @ range_target,
                 PDict [(''tag'', PStr ''references''), (''value'', PStr range_target)])])]"

fun add_keyref_slots ::
  "'s identity_processor \<Rightarrow> string \<Rightarrow> string option \<Rightarrow> string list \<Rightarrow> 's \<Rightarrow> py_error + 's" where
  "add_keyref_slots P source_class range_target [] st = Inr st"
| "add_keyref_slots P source_class range_target (field_path # field_paths) st =
     (if field_path = [] then add_keyref_slots P source_class range_target field_paths st
      else
        let slot_name = field_slot_name field_path
        in if slot_name = [] \<or> \<not> str_truthy range_target
           then add_keyref_slots P source_class range_target field_paths st
           else (case add_attribute P source_class slot_name
                        (keyref_slot_def (case range_target of Some r \<Rightarrow> r | None \<Rightarrow> [])) st of
                   Inl e \<Rightarrow> Inl e
                 | Inr st' \<Rightarrow> add_keyref_slots P source_class range_target field_paths st'))"

definition refer_key_of :: "xsd_refer \<Rightarrow> string" where
  "refer_key_of refer =
     (if str_truthy (refer_name refer) then local_name (refer_name refer)
      else local_name (Some (refer_str refer)))"

definition keyref_targets :: "key_target_map \<Rightarrow> xsd_refer \<Rightarrow> string list" where
  "keyref_targets key_target_map refer =
     (case map_of key_target_map (refer_key_of refer) of None \<Rightarrow> [] | Some cs \<Rightarrow> cs)"

definition process_keyref ::
  "'s identity_processor \<Rightarrow> xsd_refer option \<Rightarrow> string option \<Rightarrow> string list
     \<Rightarrow> key_target_map \<times> 's \<Rightarrow> py_error + (key_target_map \<times> 's)" where
  "process_keyref P refer_opt selector field_paths acc =
     (case acc of (key_target_map, st) \<Rightarrow>
        (case refer_opt of
           None \<Rightarrow> Inr acc
         | Some refer \<Rightarrow>
             let target_classes = keyref_targets key_target_map refer;
                 selector_path = (case selector of None \<Rightarrow> [] | Some p \<Rightarrow> p);
                 segments = path_segments selector_path;
                 source_segment = last segments
             in if segments = [] \<or> source_segment = ''*'' \<or> source_segment = ''.'' then Inr acc
                else
                  let source_class = local_name (Some source_segment);
                      range_target = select_keyref_range (resolver_of P st) target_classes
                  in (case add_keyref_slots P source_class range_target field_paths st of
                        Inl e \<Rightarrow> Inl e
                      | Inr st' \<Rightarrow> Inr (key_target_map, st'))))"

definition process_identity ::
  "'s identity_processor \<Rightarrow> string \<times> xsd_identity \<Rightarrow> key_target_map \<times> 's
     \<Rightarrow> py_error + (key_target_map \<times> 's)" where
  "process_identity P item acc =
     (case item of (ident_name, ident) \<Rightarrow>
        (case ident of
           XsdKey selector field_paths \<Rightarrow> process_key P ident_name selector field_paths acc
         | XsdUnique selector field_paths \<Rightarrow> process_key P ident_name selector field_paths acc
         | XsdKeyref refer selector field_paths \<Rightarrow> process_keyref P refer selector field_paths acc
         | XsdOtherIdentity \<Rightarrow> Inr acc))"

fun process_identities_from ::
  "'s identity_processor \<Rightarrow> (string \<times> xsd_identity) list \<Rightarrow> key_target_map \<times> 's
     \<Rightarrow> py_error + (key_target_map \<times> 's)" where
  "process_identities_from P [] acc = Inr acc"
| "process_identities_from P (item # items) acc =
     (case process_identity P item acc of
        Inl e \<Rightarrow> Inl e
      | Inr acc' \<Rightarrow> process_identities_from P items acc')"

definition process_identities ::
  "'s identity_processor \<Rightarrow> (string \<times> xsd_identity) list option \<Rightarrow> 's \<Rightarrow> py_error + 's" where
  "process_identities P identities st =
     (case identities of
        None \<Rightarrow> Inr st
      | Some items \<Rightarrow>
          (case process_identities_from P items ([], st) of
             Inl e \<Rightarrow> Inl e
           | Inr (key_target_map, st') \<Rightarrow> Inr st'))"

text \<open>
  A processor over the example hierarchy whose callbacks record every call; adding an
  attribute to the class \<open>Broken\<close> raises.
\<close>

datatype call = AddUniqueKey string string "string list" | AddAttribute string string slot

definition recording_processor :: "(call list) identity_processor" where
  "recording_processor =
     \<lparr>resolver_of = (\<lambda>calls. example_resolver),
      add_attribute = (\<lambda>source_class slot_name slot_def calls.
         if source_class = ''Broken'' then Inl TypeError
         else Inr (calls @ [AddAttribute source_class slot_name slot_def])),
      add_unique_key = (\<lambda>target_class key_name slot_names calls.
         Inr (calls @ [AddUniqueKey target_class key_name slot_names]))\<rparr>"

definition example_identities :: "(string \<times> xsd_identity) list" where
  "example_identities =
     [(''{ns}BaseKey'', XsdKey (Some ''.//ns:Base | .//ns:Other'') [''@ID'']),
      (''{ns}DerivedKey'', XsdKey (Some ''.//ns:DerivedA|.//ns:DerivedB'') [''@ID'']),
      (''{ns}NoTarget'', XsdKeyref (Some \<lparr>refer_name = Some ''{ns}Missing'', refer_str = ''XsdKey''\<rparr>)
         (Some ''.//ns:Broken'') [''@ref'']),
      (''{ns}NoAncestor'', XsdKeyref (Some \<lparr>refer_name = Some ''{ns}BaseKey'', refer_str = ''XsdKey''\<rparr>)
         (Some ''.//ns:Broken'') [''@ref'']),
      (''{ns}NoField'', XsdKeyref (Some \<lparr>refer_name = Some ''{ns}DerivedKey'', refer_str = ''XsdKey''\<rparr>)
         (Some ''.//ns:Broken'') ['''']),
      (''{ns}Good'', XsdKeyref (Some \<lparr>refer_name = Some ''{ns}DerivedKey'', refer_str = ''XsdKey''\<rparr>)
         (Some ''.//ns:Holder'') [''@ref''])]"

section \<open>Properties of the reference resolver\<close>

lemma ancestors_loop_prefix: "\<exists>ys. ancestors_loop R cur anc vis = anc @ ys"
proof (induction R cur anc vis rule: ancestors_loop.induct)
  case (1 R current ancestors visited)
  show ?case
  proof (cases current)
    case None
    then show ?thesis by (simp add: ancestors_loop.simps)
  next
    case (Some c)
    show ?thesis
    proof (cases "c = [] \<or> c \<in> visited")
      case True
      with Some show ?thesis by (simp add: ancestors_loop.simps)
    next
      case False
      with Some 1 obtain ys where
        "ancestors_loop R (next_base R c) (ancestors @ [c]) (insert c visited) = (ancestors @ [c]) @ ys"
        by blast
      with Some False show ?thesis by (simp add: ancestors_loop.simps [of R "Some c"])
    qed
  qed
qed

lemma ancestor_chain_self: "c \<noteq> [] \<Longrightarrow> \<exists>ys. ancestor_chain R c = c # ys"
  using ancestors_loop_prefix [of R "next_base R c" "[c]" "{c}"]
  by (simp add: ancestor_chain_def ancestors_loop.simps [of R "Some c"])

lemma collect_ancestor_lists_all:
  "[] \<notin> set cs \<Longrightarrow> collect_ancestor_lists R cs = map (ancestor_chain R) cs"
proof (induction cs)
  case Nil
  then show ?case by simp
next
  case (Cons c cs)
  then have "c \<noteq> []" by auto
  then obtain ys where "ancestor_chain R c = c # ys" using ancestor_chain_self by blast
  with Cons \<open>c \<noteq> []\<close> show ?case by (simp add: Let_def)
qed

lemma intersect_chains_Inter:
  "intersect_chains common rest = common \<inter> (\<Inter>a\<in>set rest. set a)"
  by (induction common rest rule: intersect_chains.induct) (auto simp: Let_def)

lemma select_keyref_range_many:
  assumes "2 \<le> length cs" "[] \<notin> set cs"
  shows "select_keyref_range R cs = nearest_common_ancestor R cs"
proof -
  from assms obtain c rest where cs: "cs = c # rest" by (cases cs) auto
  have col: "collect_ancestor_lists R cs = ancestor_chain R c # map (ancestor_chain R) rest"
    using collect_ancestor_lists_all [OF assms(2)] cs by simp
  have com: "intersect_chains (set (ancestor_chain R c)) (map (ancestor_chain R) rest)
               = common_ancestors R cs"
    by (auto simp: intersect_chains_Inter common_ancestors_def cs)
  have "common_ancestors R cs = {} \<Longrightarrow>
          find (\<lambda>a. a \<in> common_ancestors R cs) (ancestor_chain R c) = None"
    by (simp add: find_None_iff)
  with assms col com show ?thesis
    by (auto simp: select_keyref_range_def nearest_common_ancestor_def cs Let_def)
qed

lemma nearest_common_ancestor_None:
  assumes "cs \<noteq> []"
  shows "nearest_common_ancestor R cs = None \<longleftrightarrow> common_ancestors R cs = {}"
proof -
  from assms have "hd cs \<in> set cs" by simp
  then have "common_ancestors R cs \<subseteq> set (ancestor_chain R (hd cs))"
    by (auto simp: common_ancestors_def)
  then show ?thesis
    by (auto simp: nearest_common_ancestor_def find_None_iff)
qed

text \<open>
  Claim C1. \<open>select_keyref_range\<close> returns none on the empty candidate set and the sole
  element on a singleton. On two or more candidates (class names, so none of them the empty
  string; \<open>cs\<close> lists the set in its iteration order, whatever that is) it returns the first
  class of the first candidate's self-to-root chain that lies in every candidate's chain,
  and none exactly when the chains have no class in common.
\<close>

theorem select_keyref_range_nearest_common_ancestor:
  "select_keyref_range R [] = None \<and>
   select_keyref_range R [c] = Some c \<and>
   (2 \<le> length cs \<and> [] \<notin> set cs \<longrightarrow>
      select_keyref_range R cs = nearest_common_ancestor R cs \<and>
      (select_keyref_range R cs = None \<longleftrightarrow> common_ancestors R cs = {}))"
proof -
  have many: "select_keyref_range R cs = nearest_common_ancestor R cs \<and>
      (select_keyref_range R cs = None \<longleftrightarrow> common_ancestors R cs = {})"
    if "2 \<le> length cs" "[] \<notin> set cs"
  proof -
    from that have "cs \<noteq> []" by auto
    then show ?thesis
      using select_keyref_range_many [OF that] nearest_common_ancestor_None [of cs R] by simp
  qed
  have "select_keyref_range R [] = None" "select_keyref_range R [c] = Some c"
    by (simp_all add: select_keyref_range_def)
  with many show ?thesis by blast
qed

text \<open>
  The specification's example, through the theorem: \<open>DerivedA\<close> and \<open>DerivedB\<close> both derive
  from \<open>Base\<close>, in either iteration order of the candidate set; \<open>Base\<close> and \<open>Other\<close> share
  no ancestor.
\<close>

lemma example_chains:
  "ancestor_chain example_resolver ''DerivedA'' = [''DerivedA'', ''Base'']"
  "ancestor_chain example_resolver ''DerivedB'' = [''DerivedB'', ''Base'']"
  "ancestor_chain example_resolver ''Base'' = [''Base'']"
  "ancestor_chain example_resolver ''Other'' = [''Other'']"
  by (simp_all add: ancestor_chain_def ancestors_loop.simps example_resolver_def next_base_def
      declared_base_def class_truthy_def empty_class_def str_truthy_def)

theorem select_keyref_range_example:
  "select_keyref_range example_resolver [] = None \<and>
   select_keyref_range example_resolver [''DerivedA''] = Some ''DerivedA'' \<and>
   select_keyref_range example_resolver [''DerivedA'', ''DerivedB''] = Some ''Base'' \<and>
   select_keyref_range example_resolver [''DerivedB'', ''DerivedA''] = Some ''Base'' \<and>
   select_keyref_range example_resolver [''Base'', ''Other''] = None"
  using select_keyref_range_nearest_common_ancestor
          [of example_resolver "''DerivedA''" "[''DerivedA'', ''DerivedB'']"]
        select_keyref_range_nearest_common_ancestor
          [of example_resolver "''DerivedA''" "[''DerivedB'', ''DerivedA'']"]
        select_keyref_range_nearest_common_ancestor
          [of example_resolver "''DerivedA''" "[''Base'', ''Other'']"]
  by (simp add: nearest_common_ancestor_def common_ancestors_def example_chains)

section \<open>Properties of the constraint handler\<close>

lemma append_new_set: "set (append_new acc xs) = set acc \<union> set xs"
  by (induction acc xs rule: append_new.induct) auto

lemma append_new_prefix: "\<exists>ys. append_new acc xs = acc @ ys"
  by (induction acc xs rule: append_new.induct) auto

lemma append_new_distinct: "distinct acc \<Longrightarrow> distinct (append_new acc xs)"
  by (induction acc xs rule: append_new.induct) auto

lemma map_of_relax_slot:
  "map_of (relax_slot change name attrs) s =
     (if s = name then map_option (\<lambda>slot. if slot = [] then slot else change slot) (map_of attrs s)
      else map_of attrs s)"
  by (auto simp: relax_slot_def update_conv' split: option.splits)

lemma keys_relax_slot: "map fst (relax_slot change name attrs) = map fst attrs"
proof (cases "map_of attrs name")
  case None
  then show ?thesis by (simp add: relax_slot_def)
next
  case (Some slot)
  then have "name \<in> fst ` set attrs"
    by (metis map_of_eq_None_iff option.distinct(1))
  with Some show ?thesis by (simp add: relax_slot_def update_keys)
qed

lemma guarded_pop_idem: "guarded pop_required (guarded pop_required x) = guarded pop_required x"
  by (simp add: guarded_def pop_required_def delete_idem)

lemma guarded_mv_idem: "guarded set_multivalued (guarded set_multivalued x) = guarded set_multivalued x"
  by (simp add: guarded_def set_multivalued_def)

lemma map_of_fold_relax_slot:
  assumes idem: "\<And>x. guarded change (guarded change x) = guarded change x"
  shows "map_of (fold (relax_slot change) names attrs) s =
     (if s \<in> set names then map_option (guarded change) (map_of attrs s) else map_of attrs s)"
proof (induction names arbitrary: attrs)
  case Nil
  then show ?case by simp
next
  case (Cons n names)
  have step: "map_of (relax_slot change n attrs) s =
     (if s = n then map_option (guarded change) (map_of attrs s) else map_of attrs s)"
    unfolding guarded_def by (rule map_of_relax_slot)
  show ?case
  proof (cases "s = n")
    case True
    then have n: "n = s" by simp
    show ?thesis
      using step unfolding n by (cases "map_of attrs s") (simp_all add: Cons.IH idem)
  next
    case False
    then show ?thesis using step by (simp add: Cons.IH)
  qed
qed

lemma keys_fold_relax_slot: "map fst (fold (relax_slot change) names attrs) = map fst attrs"
  by (induction names arbitrary: attrs) (simp_all add: keys_relax_slot)

lemma map_of_relax_class:
  "map_of (relax_class change (cn, names) classes) c =
     (if c = cn then map_option (relax_cls change names) (map_of classes c) else map_of classes c)"
  by (auto simp: relax_class_def relax_cls_def update_conv' class_truthy_def split: option.splits)

lemma keys_relax_class: "map fst (relax_class change entry classes) = map fst classes"
proof (cases entry)
  case (Pair cn names)
  show ?thesis
  proof (cases "map_of classes cn")
    case None
    then show ?thesis by (simp add: relax_class_def Pair)
  next
    case (Some cls)
    then have "cn \<in> fst ` set classes"
      by (metis map_of_eq_None_iff option.distinct(1))
    with Some show ?thesis
      by (simp add: relax_class_def Pair update_keys split: option.splits)
  qed
qed

lemma keys_fold_relax_class: "map fst (fold (relax_class change) M classes) = map fst classes"
  by (induction M arbitrary: classes) (simp_all add: keys_relax_class)

lemma same_outside_slots_relax_cls: "same_outside_slots cls (relax_cls change names cls)"
  by (auto simp: same_outside_slots_def relax_cls_def keys_fold_relax_slot split: option.splits)

lemma same_outside_slots_refl: "same_outside_slots cls cls"
  by (simp add: same_outside_slots_def)

lemma same_outside_slots_trans:
  "same_outside_slots a b \<Longrightarrow> same_outside_slots b c \<Longrightarrow> same_outside_slots a c"
  by (simp add: same_outside_slots_def)

lemma frame_relax_class:
  "rel_option same_outside_slots (map_of classes c) (map_of (relax_class change entry classes) c)"
  by (cases entry; cases "map_of classes c")
     (auto simp: map_of_relax_class same_outside_slots_relax_cls same_outside_slots_refl)

lemma frame_fold_relax_class:
  "rel_option same_outside_slots (map_of classes c) (map_of (fold (relax_class change) M classes) c)"
proof (induction M arbitrary: classes)
  case Nil
  then show ?case by (simp add: option.rel_refl same_outside_slots_refl)
next
  case (Cons entry M)
  have "rel_option same_outside_slots (map_of classes c) (map_of (relax_class change entry classes) c)"
    by (rule frame_relax_class)
  moreover have "rel_option same_outside_slots (map_of (relax_class change entry classes) c)
      (map_of (fold (relax_class change) M (relax_class change entry classes)) c)"
    by (rule Cons.IH)
  ultimately show ?case
    by (auto simp: option.rel_sel intro: same_outside_slots_trans split: option.splits)
qed

lemma slot_of_relax_class:
  assumes idem: "\<And>x. guarded change (guarded change x) = guarded change x"
  shows "slot_of (relax_class change (cn, names) classes) c s =
     (if c = cn \<and> s \<in> set names then map_option (guarded change) (slot_of classes c s)
      else slot_of classes c s)"
  by (auto simp: slot_of_def map_of_relax_class relax_cls_def map_of_fold_relax_slot [OF idem]
      split: option.splits)

lemma members_Cons:
  "members ((cn, names) # M) c = (if c = cn then set names else {}) \<union> members M c"
  by (auto simp: members_def)

lemma slot_of_fold_relax_class:
  assumes idem: "\<And>x. guarded change (guarded change x) = guarded change x"
  shows "slot_of (fold (relax_class change) M classes) c s =
     (if s \<in> members M c then map_option (guarded change) (slot_of classes c s)
      else slot_of classes c s)"
proof (induction M arbitrary: classes)
  case Nil
  then show ?case by (simp add: members_def)
next
  case (Cons entry M)
  obtain cn names where entry: "entry = (cn, names)" by (cases entry)
  show ?case
    by (cases "slot_of classes c s")
       (auto simp: entry Cons.IH slot_of_relax_class [OF idem] members_Cons idem)
qed

lemma untouched_fold_relax_class:
  "c \<notin> fst ` set M \<Longrightarrow> map_of (fold (relax_class change) M classes) c = map_of classes c"
proof (induction M arbitrary: classes)
  case Nil
  then show ?case by simp
next
  case (Cons entry M)
  obtain cn names where entry: "entry = (cn, names)" by (cases entry)
  with Cons show ?case by (simp add: map_of_relax_class)
qed

lemma slot_of_relax_choice_constraints:
  "slot_of (linkml_classes (relax_choice_constraints H)) c s =
     map_option
       (\<lambda>slot. (if s \<in> members (choice_repeat_membership H) c then guarded set_multivalued else id)
                 ((if s \<in> members (choice_slot_membership H) c then guarded pop_required else id) slot))
       (slot_of (linkml_classes H) c s)"
  by (cases "slot_of (linkml_classes H) c s")
     (simp_all add: relax_choice_constraints_def slot_of_fold_relax_class [OF guarded_mv_idem]
        slot_of_fold_relax_class [OF guarded_pop_idem])

lemma guarded_pop_required_lookup:
  "map_of (guarded pop_required slot) k = (if k = ''required'' then None else map_of slot k)"
  by (auto simp: guarded_def pop_required_def delete_conv')

lemma guarded_set_multivalued_lookup:
  "map_of (guarded set_multivalued slot) k =
     (if k = ''multivalued'' \<and> slot \<noteq> [] then Some (PBool True) else map_of slot k)"
  by (auto simp: guarded_def set_multivalued_def update_conv')

lemma frame_relax_choice_constraints:
  "rel_option same_outside_slots (map_of (linkml_classes H) c)
     (map_of (linkml_classes (relax_choice_constraints H)) c)"
proof -
  let ?mid = "fold (relax_class pop_required) (choice_slot_membership H) (linkml_classes H)"
  have a: "rel_option same_outside_slots (map_of (linkml_classes H) c) (map_of ?mid c)"
    by (rule frame_fold_relax_class)
  have b: "rel_option same_outside_slots (map_of ?mid c)
      (map_of (fold (relax_class set_multivalued) (choice_repeat_membership H) ?mid) c)"
    by (rule frame_fold_relax_class)
  from a b show ?thesis
    by (auto simp: relax_choice_constraints_def option.rel_sel
        intro: same_outside_slots_trans split: option.splits)
qed

text \<open>
  Claim C4. The relaxation pass leaves the membership maps, the class names and their order,
  and every field of a class other than the contents of its slots as they were; a class
  named in neither membership map is unchanged. In a slot, every key other than \<open>required\<close>
  and \<open>multivalued\<close> keeps its value; \<open>required\<close> changes only by being removed, and only
  in a slot recorded as a choice member; \<open>multivalued\<close> changes only by becoming \<open>True\<close>, and
  only in a slot recorded as a repeating-choice member; a slot recorded in neither map is
  unchanged.
\<close>

theorem relax_choice_constraints_frame:
  "choice_slot_membership (relax_choice_constraints H) = choice_slot_membership H \<and>
   choice_repeat_membership (relax_choice_constraints H) = choice_repeat_membership H \<and>
   map fst (linkml_classes (relax_choice_constraints H)) = map fst (linkml_classes H) \<and>
   rel_option same_outside_slots (map_of (linkml_classes H) c)
     (map_of (linkml_classes (relax_choice_constraints H)) c) \<and>
   (c \<notin> fst ` set (choice_slot_membership H) \<and> c \<notin> fst ` set (choice_repeat_membership H) \<longrightarrow>
      map_of (linkml_classes (relax_choice_constraints H)) c = map_of (linkml_classes H) c) \<and>
   (slot_of (linkml_classes H) c s = None \<longrightarrow>
      slot_of (linkml_classes (relax_choice_constraints H)) c s = None) \<and>
   (slot_of (linkml_classes H) c s = Some slot \<longrightarrow>
      (\<exists>slot'. slot_of (linkml_classes (relax_choice_constraints H)) c s = Some slot' \<and>
         (k \<noteq> ''required'' \<and> k \<noteq> ''multivalued'' \<longrightarrow> map_of slot' k = map_of slot k) \<and>
         (map_of slot' ''required'' = map_of slot ''required'' \<or>
            s \<in> members (choice_slot_membership H) c \<and> map_of slot' ''required'' = None) \<and>
         (map_of slot' ''multivalued'' = map_of slot ''multivalued'' \<or>
            s \<in> members (choice_repeat_membership H) c \<and>
            map_of slot' ''multivalued'' = Some (PBool True)) \<and>
         (s \<notin> members (choice_slot_membership H) c \<and>
          s \<notin> members (choice_repeat_membership H) c \<longrightarrow> slot' = slot)))"
proof -
  have m: "choice_slot_membership (relax_choice_constraints H) = choice_slot_membership H"
    "choice_repeat_membership (relax_choice_constraints H) = choice_repeat_membership H"
    by (simp_all add: relax_choice_constraints_def)
  have keys: "map fst (linkml_classes (relax_choice_constraints H)) = map fst (linkml_classes H)"
    by (simp add: relax_choice_constraints_def keys_fold_relax_class)
  have untouched: "map_of (linkml_classes (relax_choice_constraints H)) c = map_of (linkml_classes H) c"
    if "c \<notin> fst ` set (choice_slot_membership H)" "c \<notin> fst ` set (choice_repeat_membership H)"
    using that by (simp add: relax_choice_constraints_def untouched_fold_relax_class)
  have none: "slot_of (linkml_classes (relax_choice_constraints H)) c s = None"
    if "slot_of (linkml_classes H) c s = None"
    using that by (simp add: slot_of_relax_choice_constraints)
  have some: "\<exists>slot'. slot_of (linkml_classes (relax_choice_constraints H)) c s = Some slot' \<and>
         (k \<noteq> ''required'' \<and> k \<noteq> ''multivalued'' \<longrightarrow> map_of slot' k = map_of slot k) \<and>
         (map_of slot' ''required'' = map_of slot ''required'' \<or>
            s \<in> members (choice_slot_membership H) c \<and> map_of slot' ''required'' = None) \<and>
         (map_of slot' ''multivalued'' = map_of slot ''multivalued'' \<or>
            s \<in> members (choice_repeat_membership H) c \<and>
            map_of slot' ''multivalued'' = Some (PBool True)) \<and>
         (s \<notin> members (choice_slot_membership H) c \<and>
          s \<notin> members (choice_repeat_membership H) c \<longrightarrow> slot' = slot)"
    if found: "slot_of (linkml_classes H) c s = Some slot"
  proof -
    define s1 where
      "s1 = (if s \<in> members (choice_slot_membership H) c then guarded pop_required slot else slot)"
    define s2 where
      "s2 = (if s \<in> members (choice_repeat_membership H) c then guarded set_multivalued s1 else s1)"
    have l1: "map_of s1 j =
        (if s \<in> members (choice_slot_membership H) c \<and> j = ''required'' then None
         else map_of slot j)" for j
      by (simp add: s1_def guarded_pop_required_lookup)
    have l2: "map_of s2 j =
        (if s \<in> members (choice_repeat_membership H) c \<and> j = ''multivalued'' \<and> s1 \<noteq> []
         then Some (PBool True) else map_of s1 j)" for j
      by (simp add: s2_def guarded_set_multivalued_lookup)
    have res: "slot_of (linkml_classes (relax_choice_constraints H)) c s = Some s2"
      using found by (simp add: slot_of_relax_choice_constraints s1_def s2_def)
    have same: "s2 = slot"
      if "s \<notin> members (choice_slot_membership H) c" "s \<notin> members (choice_repeat_membership H) c"
      using that by (simp add: s1_def s2_def)
    from res same show ?thesis
      by (auto simp: l1 l2)
  qed
  from m keys untouched none some frame_relax_choice_constraints [of H c]
  show ?thesis by blast
qed

text \<open>
  The theorem at the sample class after its choice between \<open>weight\<close> and \<open>volume\<close> was
  recorded: \<open>weight\<close> keeps its range, \<open>name\<close> (in no choice) and the class \<open>Other\<close> are
  untouched.
\<close>

theorem relax_choice_constraints_frame_example:
  "(\<exists>slot'. slot_of (linkml_classes (relax_choice_constraints collected_sample))
        ''Sample'' ''weight'' = Some slot' \<and>
      map_of slot' ''range'' = Some (PStr ''float'')) \<and>
   slot_of (linkml_classes (relax_choice_constraints collected_sample)) ''Sample'' ''name''
     = Some [(''range'', PStr ''string''), (''required'', PBool True)] \<and>
   map_of (linkml_classes (relax_choice_constraints collected_sample)) ''Other''
     = Some empty_class"
proof -
  have weight: "slot_of (linkml_classes collected_sample) ''Sample'' ''weight''
      = Some [(''range'', PStr ''float''), (''required'', PBool True)]"
    by code_simp
  have name: "slot_of (linkml_classes collected_sample) ''Sample'' ''name''
      = Some [(''range'', PStr ''string''), (''required'', PBool True)]"
    by code_simp
  have name_free: "''name'' \<notin> members (choice_slot_membership collected_sample) ''Sample''"
    "''name'' \<notin> members (choice_repeat_membership collected_sample) ''Sample''"
    by code_simp+
  have other: "map_of (linkml_classes collected_sample) ''Other'' = Some empty_class"
    by code_simp
  have other_free: "''Other'' \<notin> fst ` set (choice_slot_membership collected_sample)"
    "''Other'' \<notin> fst ` set (choice_repeat_membership collected_sample)"
    by code_simp+
  from weight
    relax_choice_constraints_frame [of collected_sample "''Sample''" "''weight''"
       "[(''range'', PStr ''float''), (''required'', PBool True)]" "''range''"]
  obtain slot' where
    "slot_of (linkml_classes (relax_choice_constraints collected_sample)) ''Sample'' ''weight''
       = Some slot'"
    "''range'' \<noteq> ''required'' \<and> ''range'' \<noteq> ''multivalued'' \<longrightarrow>
       map_of slot' ''range'' = map_of [(''range'', PStr ''float''), (''required'', PBool True)] ''range''"
    by blast
  then have a: "\<exists>slot'. slot_of (linkml_classes (relax_choice_constraints collected_sample))
        ''Sample'' ''weight'' = Some slot' \<and> map_of slot' ''range'' = Some (PStr ''float'')"
    by simp
  from name name_free
    relax_choice_constraints_frame [of collected_sample "''Sample''" "''name''"
       "[(''range'', PStr ''string''), (''required'', PBool True)]" "''range''"]
  have b: "slot_of (linkml_classes (relax_choice_constraints collected_sample)) ''Sample'' ''name''
     = Some [(''range'', PStr ''string''), (''required'', PBool True)]"
    by blast
  from other other_free
    relax_choice_constraints_frame [of collected_sample "''Other''" "''name''" "[]" "''range''"]
  have c: "map_of (linkml_classes (relax_choice_constraints collected_sample)) ''Other''
     = Some empty_class"
    by simp
  from a b c show ?thesis by blast
qed




lemma universe_branch_slots:
  "set (append_new [] (concat (map (\<lambda>branch. append_new [] (map fst branch)) branches)))
     = branch_slots branches"
  by (auto simp: append_new_set branch_slots_def)



lemma in_set_update: "(k, v) \<in> set (AList.update k v al)"
  by (induction al) auto

lemma members_membership_update:
  "set universe \<subseteq> members (membership_update c universe M) c"
proof -
  have "(c, append_new (case map_of M c of None \<Rightarrow> [] | Some names \<Rightarrow> names) universe)
          \<in> set (membership_update c universe M)"
    unfolding membership_update_def by (rule in_set_update)
  then have "set (append_new (case map_of M c of None \<Rightarrow> [] | Some names \<Rightarrow> names) universe)
          \<subseteq> members (membership_update c universe M) c"
    unfolding members_def by force
  then show ?thesis by (auto simp: append_new_set)
qed

lemma members_update_mono:
  "(case map_of M c of None \<Rightarrow> True | Some old \<Rightarrow> set old \<subseteq> set v)
     \<Longrightarrow> members M c' \<subseteq> members (AList.update c v M) c'"
proof (induction M)
  case Nil
  then show ?case by (simp add: members_def)
next
  case (Cons entry M)
  obtain k x where entry: "entry = (k, x)" by (cases entry)
  show ?case
  proof (cases "k = c")
    case True
    with Cons.prems entry show ?thesis by (auto simp: members_Cons)
  next
    case False
    with Cons entry show ?thesis by (auto simp: members_Cons)
  qed
qed

lemma members_membership_update_mono:
  "members M c' \<subseteq> members (membership_update c universe M) c'"
  unfolding membership_update_def
  by (rule members_update_mono) (auto simp: append_new_set split: option.splits)

lemma apply_choice_constraint_slot_membership:
  assumes "2 \<le> length branches"
  shows "choice_slot_membership (apply_choice_constraint H c branches rep) =
     membership_update c
       (append_new [] (concat (map (\<lambda>branch. append_new [] (map fst branch)) branches)))
       (choice_slot_membership H)"
proof -
  from assms have "\<not> length branches < 2" by simp
  then show ?thesis by (simp add: apply_choice_constraint_def Let_def)
qed

lemma apply_choice_constraint_repeat_membership:
  assumes "2 \<le> length branches"
  shows "choice_repeat_membership (apply_choice_constraint H c branches rep) =
     (if rep then membership_update c
       (append_new [] (concat (map (\<lambda>branch. append_new [] (map fst branch)) branches)))
       (choice_repeat_membership H) else choice_repeat_membership H)"
proof -
  from assms have "\<not> length branches < 2" by simp
  then show ?thesis by (simp add: apply_choice_constraint_def Let_def)
qed

lemma apply_choice_constraint_membership:
  assumes "2 \<le> length branches"
  shows "branch_slots branches
           \<subseteq> members (choice_slot_membership (apply_choice_constraint H c branches rep)) c"
    and "rep \<Longrightarrow> branch_slots branches
           \<subseteq> members (choice_repeat_membership (apply_choice_constraint H c branches rep)) c"
  using members_membership_update [of _ c]
  by (simp_all add: apply_choice_constraint_slot_membership [OF assms]
      apply_choice_constraint_repeat_membership [OF assms] universe_branch_slots [symmetric])

lemma apply_choice_constraint_members_mono:
  "members (choice_slot_membership H) c' \<subseteq>
     members (choice_slot_membership (apply_choice_constraint H c branches rep)) c' \<and>
   members (choice_repeat_membership H) c' \<subseteq>
     members (choice_repeat_membership (apply_choice_constraint H c branches rep)) c'"
proof (cases "2 \<le> length branches")
  case True
  then show ?thesis
    by (simp add: apply_choice_constraint_slot_membership apply_choice_constraint_repeat_membership
        members_membership_update_mono)
next
  case False
  then show ?thesis by (simp add: apply_choice_constraint_def)
qed





lemma relaxed_repeat_member_multivalued:
  assumes "s \<in> members (choice_repeat_membership H) c"
    and "slot_of (linkml_classes H) c s = Some slot" and "pop_required slot \<noteq> []"
  shows "\<exists>slot'. slot_of (linkml_classes (relax_choice_constraints H)) c s = Some slot' \<and>
           map_of slot' ''multivalued'' = Some (PBool True)"
proof -
  from assms(3) have "slot \<noteq> []" by (auto simp: pop_required_def)
  with assms show ?thesis
    by (simp add: slot_of_relax_choice_constraints guarded_set_multivalued_lookup)
       (simp add: guarded_def)
qed

lemma extract_choice_branches_nonempty: "[] \<notin> set (extract_choice_branches g)"
  by (cases g) simp_all

text \<open>
  The forms of a repeating group. \<open>maxOccurs="unbounded"\<close> arrives as \<open>max_occurs\<close>
  \<open>None\<close> with \<open>occurs\<close> ending in \<open>None\<close>; the string is accepted as well.
\<close>

lemma choice_is_repeating_forms:
  "choice_is_repeating (XsdGroup model maxo occurs_tuple items) \<longleftrightarrow>
     maxo = Unbounded \<or> (\<exists>n. maxo = Count n \<and> 1 < n) \<or>
     (maxo = NoBound \<and> (\<exists>t. occurs_tuple = Some t \<and> t \<noteq> [] \<and> last t = NoBound))"
  by (auto simp: choice_is_repeating_def split: occurs_bound.splits option.splits)





text \<open>
  What one visit of a choice group establishes, and every visit keeps, holds after the
  content model was processed, for the content model itself and for each of its items.
\<close>

lemma fold_constrain_choice_keeps:
  assumes "Q H" and "\<And>item H. Q H \<Longrightarrow> Q (constrain_choice c item H)"
  shows "Q (fold (constrain_choice c) items H)"
  using assms(1) by (induction items arbitrary: H) (simp_all add: assms(2))

lemma fold_constrain_choice_establishes:
  assumes "g \<in> set items"
    and "\<And>H. Q (constrain_choice c g H)"
    and "\<And>item H. Q H \<Longrightarrow> Q (constrain_choice c item H)"
  shows "Q (fold (constrain_choice c) items H)"
  using assms(1)
proof (induction items arbitrary: H)
  case Nil
  then show ?case by simp
next
  case (Cons item items)
  show ?case
  proof (cases "g = item")
    case True
    have "Q (constrain_choice c item H)" unfolding True [symmetric] by (rule assms(2))
    then have "Q (fold (constrain_choice c) items (constrain_choice c item H))"
      by (rule fold_constrain_choice_keeps) (rule assms(3))
    then show ?thesis by simp
  next
    case False
    with Cons.prems have "g \<in> set items" by simp
    from Cons.IH [OF this] show ?thesis by simp
  qed
qed

lemma collect_choice_constraints_establishes:
  assumes "\<And>H. Q (constrain_choice c g H)"
    and "\<And>item H. Q H \<Longrightarrow> Q (constrain_choice c item H)"
    and "content = XsdGroup model maxo occurs_tuple items"
    and "g = content \<or> g \<in> set items"
  shows "Q (collect_choice_constraints H c (Some content))"
proof -
  have run: "collect_choice_constraints H c (Some content)
      = fold (constrain_choice c) items (constrain_choice c content H)"
    by (simp add: collect_choice_constraints_def assms(3))
  from assms(4) show ?thesis
  proof
    assume "g = content"
    then have "Q (constrain_choice c content H)" using assms(1) by simp
    then show ?thesis unfolding run by (rule fold_constrain_choice_keeps) (rule assms(2))
  next
    assume "g \<in> set items"
    then show ?thesis unfolding run
      by (rule fold_constrain_choice_establishes) (rule assms(1), rule assms(2))
  qed
qed

lemma constrain_choice_choice:
  "constrain_choice c (XsdGroup ''choice'' maxo occurs_tuple items) H =
     apply_choice_constraint H c (extract_choice_branches (XsdGroup ''choice'' maxo occurs_tuple items))
       (choice_is_repeating (XsdGroup ''choice'' maxo occurs_tuple items))"
  by (simp add: constrain_choice_def)

lemma constrain_choice_members_mono:
  "members (choice_slot_membership H) c' \<subseteq>
     members (choice_slot_membership (constrain_choice c item H)) c' \<and>
   members (choice_repeat_membership H) c' \<subseteq>
     members (choice_repeat_membership (constrain_choice c item H)) c'"
proof (cases "\<exists>maxo occurs_tuple items. item = XsdGroup ''choice'' maxo occurs_tuple items")
  case True
  then obtain maxo occurs_tuple items where "item = XsdGroup ''choice'' maxo occurs_tuple items"
    by blast
  then show ?thesis
    using apply_choice_constraint_members_mono by (simp add: constrain_choice_choice)
next
  case False
  then have "constrain_choice c item H = H"
    by (auto simp: constrain_choice_def split: particle.splits)
  then show ?thesis by simp
qed


lemma collected_choice_members:
  assumes "content = XsdGroup model maxo occurs_tuple items"
    and "g = content \<or> g \<in> set items"
    and "g = XsdGroup ''choice'' g_maxo g_occurs g_items"
    and "2 \<le> length (extract_choice_branches g)"
  shows "branch_slots (extract_choice_branches g)
           \<subseteq> members (choice_slot_membership (collect_choice_constraints H c (Some content))) c"
    and "choice_is_repeating g \<Longrightarrow> branch_slots (extract_choice_branches g)
           \<subseteq> members (choice_repeat_membership (collect_choice_constraints H c (Some content))) c"
proof -
  show "branch_slots (extract_choice_branches g)
           \<subseteq> members (choice_slot_membership (collect_choice_constraints H c (Some content))) c"
  proof (rule collect_choice_constraints_establishes
      [of "\<lambda>H::constraint_handler. branch_slots (extract_choice_branches g) \<subseteq> members (choice_slot_membership H) c",
        OF _ _ assms(1,2)])
    fix H :: constraint_handler
    show "branch_slots (extract_choice_branches g)
        \<subseteq> members (choice_slot_membership (constrain_choice c g H)) c"
      unfolding assms(3) constrain_choice_choice
      using apply_choice_constraint_membership(1) assms(4) unfolding assms(3) by blast
  next
    fix item and H :: constraint_handler
    assume "branch_slots (extract_choice_branches g) \<subseteq> members (choice_slot_membership H) c"
    with constrain_choice_members_mono [of H c c item]
    show "branch_slots (extract_choice_branches g)
        \<subseteq> members (choice_slot_membership (constrain_choice c item H)) c"
      by blast
  qed
next
  assume rep: "choice_is_repeating g"
  show "branch_slots (extract_choice_branches g)
           \<subseteq> members (choice_repeat_membership (collect_choice_constraints H c (Some content))) c"
  proof (rule collect_choice_constraints_establishes
      [of "\<lambda>H::constraint_handler. branch_slots (extract_choice_branches g) \<subseteq> members (choice_repeat_membership H) c",
        OF _ _ assms(1,2)])
    fix H :: constraint_handler
    show "branch_slots (extract_choice_branches g)
        \<subseteq> members (choice_repeat_membership (constrain_choice c g H)) c"
      unfolding assms(3) constrain_choice_choice
      using apply_choice_constraint_membership(2) assms(4) rep unfolding assms(3) by blast
  next
    fix item and H :: constraint_handler
    assume "branch_slots (extract_choice_branches g) \<subseteq> members (choice_repeat_membership H) c"
    with constrain_choice_members_mono [of H c c item]
    show "branch_slots (extract_choice_branches g)
        \<subseteq> members (choice_repeat_membership (constrain_choice c item H)) c"
      by blast
  qed
qed


lemma choice_expr_inj: "inj choice_expr"
  by (rule injI) (simp add: choice_expr_def)



lemma ranged_slot_survives:
  assumes "map_of slot ''range'' = Some r"
  shows "pop_required slot \<noteq> []"
proof
  assume "pop_required slot = []"
  then have "map_of (AList.delete ''required'' slot) ''range'' = None"
    by (simp add: pop_required_def)
  with assms show False by (simp add: delete_conv')
qed


text \<open>
  Claim C3, for the choice groups the handler visits, with at least two non-empty branches.
  Let \<open>g\<close> be the content model itself or an item that \<open>iter_model\<close> yields for it, a choice
  group that \<open>choice_is_repeating\<close> accepts (\<open>max_occurs\<close> unbounded, which arrives as
  \<open>None\<close> with \<open>occurs\<close> ending in \<open>None\<close>, or a count above one: lemma
  \<open>choice_is_repeating_forms\<close>). After the content model was processed for class \<open>c\<close>, in
  every later state \<open>H'\<close> that still records the repeating-choice members of this pass,
  every slot of \<open>c\<close> that a branch of \<open>g\<close> names (a slot carries a \<open>range\<close>) is
  \<open>multivalued\<close> after the relaxation pass.
\<close>

theorem repeating_choice_group_multivalued:
  assumes "content = XsdGroup model maxo occurs_tuple items"
    and "g = content \<or> g \<in> set items"
    and "g = XsdGroup ''choice'' g_maxo g_occurs g_items"
    and "choice_is_repeating g"
    and "2 \<le> length (extract_choice_branches g)"
    and "s \<in> branch_slots (extract_choice_branches g)"
    and "members (choice_repeat_membership (collect_choice_constraints H c (Some content))) c
           \<subseteq> members (choice_repeat_membership H') c"
    and "slot_of (linkml_classes H') c s = Some slot"
    and "map_of slot ''range'' = Some r"
  shows "\<exists>slot'. slot_of (linkml_classes (relax_choice_constraints H')) c s = Some slot' \<and>
            map_of slot' ''multivalued'' = Some (PBool True)"
proof -
  from collected_choice_members(2) [OF assms(1-3,5,4), of H c] assms(6,7)
  have "s \<in> members (choice_repeat_membership H') c" by blast
  then show ?thesis
    using assms(8) ranged_slot_survives [OF assms(9)] by (rule relaxed_repeat_member_multivalued)
qed

text \<open>
  Claim C10. \<open>extract_choice_branches\<close> hands over non-empty branches only, so the branches
  \<open>apply_choice_constraint\<close> counts are the non-empty ones. With fewer than two of them the
  handler is returned as it was: no class is created, no \<open>exactly_one_of\<close> entry added, no
  membership recorded; and a slot that no other choice recorded keeps its \<open>required\<close> key
  through the relaxation pass.
\<close>

theorem apply_choice_constraint_few_branches:
  "[] \<notin> set (extract_choice_branches g) \<and>
   (length branches < 2 \<longrightarrow>
      apply_choice_constraint H c branches rep = H \<and>
      (s \<notin> members (choice_slot_membership H) c \<longrightarrow>
         rel_option (\<lambda>slot slot'. map_of slot' ''required'' = map_of slot ''required'')
           (slot_of (linkml_classes H) c s)
           (slot_of (linkml_classes
              (relax_choice_constraints (apply_choice_constraint H c branches rep))) c s)))"
proof -
  have same: "apply_choice_constraint H c branches rep = H" if "length branches < 2"
    using that by (simp add: apply_choice_constraint_def)
  have keep: "rel_option (\<lambda>slot slot'. map_of slot' ''required'' = map_of slot ''required'')
           (slot_of (linkml_classes H) c s)
           (slot_of (linkml_classes (relax_choice_constraints H)) c s)"
    if "s \<notin> members (choice_slot_membership H) c"
    using that
    by (cases "slot_of (linkml_classes H) c s")
       (simp_all add: slot_of_relax_choice_constraints guarded_set_multivalued_lookup)
  from same keep extract_choice_branches_nonempty [of g] show ?thesis by simp
qed



text \<open>
  The unbounded choice between \<open>weight\<close> and \<open>volume\<close>, an item of the content model of
  the sample class.
\<close>

theorem repeating_choice_group_multivalued_example:
  "choice_is_repeating (sample_choice NoBound) \<and>
   (\<exists>slot'. slot_of (linkml_classes (relax_choice_constraints
        (collect_choice_constraints sample_handler ''Sample''
           (Some (sample_content (sample_choice NoBound)))))) ''Sample'' ''weight'' = Some slot' \<and>
      map_of slot' ''multivalued'' = Some (PBool True))"
proof -
  have content: "sample_content (sample_choice NoBound) =
      XsdGroup ''sequence'' (Count 1) (Some [Count 1, Count 1])
        [XsdElement (Some ''name'') None 1, sample_choice NoBound]"
    by (simp add: sample_content_def occurring_def)
  have item: "sample_choice NoBound = sample_content (sample_choice NoBound) \<or>
      sample_choice NoBound \<in> set [XsdElement (Some ''name'') None 1, sample_choice NoBound]"
    by simp
  have g: "sample_choice NoBound = XsdGroup ''choice'' NoBound (Some [Count 1, NoBound])
      [XsdElement (Some ''weight'') None 1, XsdElement (Some ''volume'') None 1]"
    by (simp add: sample_choice_def occurring_def)
  have rep: "choice_is_repeating (sample_choice NoBound)"
    by code_simp
  have len: "2 \<le> length (extract_choice_branches (sample_choice NoBound))"
    by code_simp
  have s: "''weight'' \<in> branch_slots (extract_choice_branches (sample_choice NoBound))"
    by code_simp
  have slot: "slot_of (linkml_classes (collect_choice_constraints sample_handler ''Sample''
      (Some (sample_content (sample_choice NoBound))))) ''Sample'' ''weight''
      = Some [(''range'', PStr ''float''), (''required'', PBool True)]"
    by code_simp
  have range: "map_of [(''range'', PStr ''float''), (''required'', PBool True)] ''range''
      = Some (PStr ''float'')"
    by simp
  from repeating_choice_group_multivalued [OF content item g rep len s subset_refl slot range] rep
  show ?thesis by blast
qed

text \<open>
  Two repeating choice groups whose slot \<open>weight\<close> is not \<open>multivalued\<close> after the
  relaxation pass: the unbounded choice with the single branch \<open>weight\<close>, here the content
  model itself, and the unbounded choice between \<open>weight\<close> and \<open>volume\<close> below an
  optional sequence of the content model.
\<close>

theorem single_or_nested_repeating_choice_not_multivalued:
  "choice_is_repeating (sample_single_choice NoBound) \<and>
   extract_choice_branches (sample_single_choice NoBound) = [[(''weight'', True)]] \<and>
   slot_of (linkml_classes (relax_choice_constraints
      (collect_choice_constraints sample_handler ''Sample''
         (Some (sample_single_choice NoBound))))) ''Sample'' ''weight''
      = Some [(''range'', PStr ''float''), (''required'', PBool True)] \<and>
   choice_is_repeating (sample_choice NoBound) \<and>
   extract_choice_branches (sample_choice NoBound)
      = [[(''weight'', True)], [(''volume'', True)]] \<and>
   slot_of (linkml_classes (relax_choice_constraints
      (collect_choice_constraints sample_handler ''Sample''
         (Some (nested_content (sample_choice NoBound)))))) ''Sample'' ''weight''
      = Some [(''range'', PStr ''float''), (''required'', PBool True)]"
  by code_simp

text \<open>The single-branch choice on the sample class: \<open>weight\<close> stays \<open>required\<close>.\<close>

theorem apply_choice_constraint_few_branches_example:
  "apply_choice_constraint sample_handler ''Sample''
      (extract_choice_branches (weight_only Unbounded)) True = sample_handler \<and>
   (\<exists>slot'. slot_of (linkml_classes (relax_choice_constraints
        (apply_choice_constraint sample_handler ''Sample''
           (extract_choice_branches (weight_only Unbounded)) True))) ''Sample'' ''weight''
        = Some slot' \<and>
      map_of slot' ''required'' = Some (PBool True))"
proof -
  have len: "length (extract_choice_branches (weight_only Unbounded)) < 2"
    by code_simp
  have free: "''weight'' \<notin> members (choice_slot_membership sample_handler) ''Sample''"
    by code_simp
  have slot: "slot_of (linkml_classes sample_handler) ''Sample'' ''weight''
      = Some [(''range'', PStr ''float''), (''required'', PBool True)]"
    by code_simp
  from apply_choice_constraint_few_branches
         [of "weight_only Unbounded" "extract_choice_branches (weight_only Unbounded)"
             sample_handler "''Sample''" True "''weight''"] len free
  have same: "apply_choice_constraint sample_handler ''Sample''
      (extract_choice_branches (weight_only Unbounded)) True = sample_handler"
    and rel: "rel_option (\<lambda>slot slot'. map_of slot' ''required'' = map_of slot ''required'')
           (slot_of (linkml_classes sample_handler) ''Sample'' ''weight'')
           (slot_of (linkml_classes (relax_choice_constraints
              (apply_choice_constraint sample_handler ''Sample''
                 (extract_choice_branches (weight_only Unbounded)) True))) ''Sample'' ''weight'')"
    by blast+
  from rel obtain slot' where "slot_of (linkml_classes (relax_choice_constraints
        (apply_choice_constraint sample_handler ''Sample''
           (extract_choice_branches (weight_only Unbounded)) True))) ''Sample'' ''weight''
        = Some slot'" "map_of slot' ''required'' = Some (PBool True)"
    unfolding slot by (auto simp: option_rel_Some1)
  with same show ?thesis by blast
qed

section \<open>Properties of the documentation merger\<close>

text \<open>
  Claim C7. The documentation text of the specification's example, applied to an empty
  target, gives exactly the description, the subset list with the tier-1 subset and the one
  annotation for \<open>SomeTag\<close>.
\<close>

theorem apply_doc_metadata_example:
  "apply_doc_metadata [] (Some example_doc) =
     Inr [(''description'', PStr ''This is the description.''),
          (''in_subset'', PList [PStr ''NBO_Tier1'']),
          (''annotations'',
             PDict [(''SomeTag'', PDict [(''tag'', PStr ''SomeTag''), (''value'', PStr ''foo'')])])]"
  by code_simp

text \<open>
  Claim C8 fails on the code. The first block stores its two values of \<open>K\<close> under \<open>K\<close> and
  \<open>K_1\<close>. The second block finds \<open>K\<close> taken, stores its first value under \<open>K_0\<close>, and its
  second value under \<open>K_1\<close> again: the entry holding \<open>b\<close> is overwritten by \<open>d\<close>.
\<close>

theorem annotation_overwritten_by_second_merge:
  "apply_doc_metadata [] (Some first_doc) =
     Inr [(''annotations'',
             PDict [(''K'', annotation_entry ''K'' ''a''),
                    (''K_1'', annotation_entry ''K'' ''b'')])] \<and>
   apply_doc_metadata
     [(''annotations'',
         PDict [(''K'', annotation_entry ''K'' ''a''),
                (''K_1'', annotation_entry ''K'' ''b'')])]
     (Some second_doc) =
     Inr [(''annotations'',
             PDict [(''K'', annotation_entry ''K'' ''a''),
                    (''K_1'', annotation_entry ''K'' ''d''),
                    (''K_0'', annotation_entry ''K'' ''c'')])]"
  by code_simp

text \<open>
  The same happens among vendor-extension entries: after \<open>a_2\<close> and \<open>a\<close>, a second \<open>a\<close> is
  stored under \<open>a\<close> followed by the number of annotations, which is \<open>a_2\<close>.
\<close>

lemma appinfo_entry_overwritten:
  "apply_appinfo_metadata []
     (Some \<lparr>annotation_documentation = None,
            annotation_appinfo = Some [XmlNode ''appinfo'' None
              [XmlNode ''a_2'' (Some ''x'') [], XmlNode ''a'' (Some ''y'') [],
               XmlNode ''a'' (Some ''z'') []]]\<rparr>) =
     [(''annotations'',
         PDict [(''a_2'', annotation_entry ''a'' ''z''), (''a'', annotation_entry ''a'' ''y'')])]"
  by code_simp

section \<open>Properties of the primitive type mapper\<close>

lemma mapped_primitive: "map_of XSD_TO_LINKML_TYPE_MAP n = Some p \<Longrightarrow> p \<in> PRIMITIVE_RANGES"
proof -
  assume "map_of XSD_TO_LINKML_TYPE_MAP n = Some p"
  then have "p \<in> snd ` set XSD_TO_LINKML_TYPE_MAP"
    by (metis map_of_SomeD image_eqI snd_conv)
  also have "snd ` set XSD_TO_LINKML_TYPE_MAP \<subseteq> PRIMITIVE_RANGES"
    by (simp add: XSD_TO_LINKML_TYPE_MAP_def PRIMITIVE_RANGES_def)
  finally show ?thesis .
qed

lemma first_mapped_name_primitive: "first_mapped_name names \<in> PRIMITIVE_RANGES"
proof (induction names rule: first_mapped_name.induct)
  case 1
  then show ?case by (simp add: PRIMITIVE_RANGES_def)
next
  case (2 names)
  then show ?case by simp
next
  case (3 n names)
  have "''string'' \<in> PRIMITIVE_RANGES" by (simp add: PRIMITIVE_RANGES_def)
  with 3 show ?case
    by (auto simp: mapped_primitive split: option.splits)
qed

lemma base_not_self: "base \<noteq> XsdObj name (Some base) facets"
proof
  assume "base = XsdObj name (Some base) facets"
  then have "size base = size (XsdObj name (Some base) facets)" by simp
  then show False by simp
qed

lemma map_xsd_type_chain: "map_xsd_type t = first_mapped_name (map name_of_type (type_chain t))"
proof (induction t rule: map_xsd_type.induct)
  case (1 s)
  then show ?case by (simp add: Let_def split: option.splits)
next
  case (2 name base_type facets)
  show ?case
  proof (cases base_type)
    case None
    then show ?thesis by (simp add: Let_def split: option.splits)
  next
    case (Some base)
    have ne: "first_mapped_name names \<noteq> []" for names
      using first_mapped_name_primitive [of names] by (auto simp: PRIMITIVE_RANGES_def)
    show ?thesis
    proof (cases "str_truthy name")
      case True
      show ?thesis
      proof (cases "local_name name = []")
        case True
        with \<open>str_truthy name\<close> show ?thesis by (simp add: Let_def)
      next
        case False
        show ?thesis
        proof (cases "map_of XSD_TO_LINKML_TYPE_MAP (local_name name)")
          case None
          with 2(1) [OF True refl False None Some] True False Some base_not_self [of base name facets]
          show ?thesis by (simp add: Let_def ne)
        next
          case (Some p)
          with True False show ?thesis by (simp add: Let_def)
        qed
      qed
    next
      case False
      with 2(2) [OF False Some] Some show ?thesis by simp
    qed
  qed
qed

text \<open>
  Claim C9. \<open>map_xsd_primitive\<close> returns \<open>string\<close> on \<open>None\<close>; on a type it returns the
  primitive the table gives for the first name along the chain of base types that the
  table holds, and \<open>string\<close> when the chain ends first or a name has no local part. The
  result is always one of the primitive ranges.
\<close>

theorem map_xsd_primitive_first_mapped:
  "map_xsd_primitive None = ''string'' \<and>
   map_xsd_primitive (Some t) = first_mapped_name (map name_of_type (type_chain t)) \<and>
   map_xsd_primitive xsd_type \<in> PRIMITIVE_RANGES"
proof -
  have "''string'' \<in> PRIMITIVE_RANGES" by (simp add: PRIMITIVE_RANGES_def)
  then have "map_xsd_primitive xsd_type \<in> PRIMITIVE_RANGES"
    by (cases xsd_type)
       (simp_all add: map_xsd_primitive_def map_xsd_type_chain first_mapped_name_primitive)
  then show ?thesis
    by (simp add: map_xsd_primitive_def map_xsd_type_chain)
qed

text \<open>
  An anonymous restriction of \<open>ns:Count\<close>, itself derived from \<open>xs:positiveInteger\<close>.
\<close>

lemma map_xsd_primitive_restriction_example:
  "map_xsd_primitive
     (Some (XsdObj None
        (Some (XsdObj (Some ''{http://example.org/ns}Count'')
           (Some (XsdObj (Some ''{http://www.w3.org/2001/XMLSchema}positiveInteger'') None
              \<lparr>enumeration = [], pattern_of = None, min_value = None, max_value = None\<rparr>))
           \<lparr>enumeration = [], pattern_of = None, min_value = None, max_value = None\<rparr>))
        \<lparr>enumeration = [], pattern_of = None, min_value = None, max_value = None\<rparr>))
     = ''integer''"
  by code_simp

section \<open>Properties of the slot builder\<close>

lemma apply_metadata_to_target_other_keys:
  assumes "apply_metadata_to_target target metadata = Inr target'"
    and "k \<noteq> ''in_subset''" and "k \<noteq> ''annotations''"
  shows "map_of target' k = map_of target k"
  using assms
  by (auto simp: apply_metadata_to_target_def Let_def update_conv'
      split: if_splits option.splits pyval.splits sum.splits)

lemma apply_metadata_to_target_fresh:
  assumes "map_of target ''in_subset'' = None" and "map_of target ''annotations'' = None"
  shows "\<exists>target'. apply_metadata_to_target target metadata = Inr target'"
  using assms
  by (auto simp: apply_metadata_to_target_def Let_def update_conv'
      split: if_splits option.splits pyval.splits sum.splits)

lemma apply_doc_metadata_other_keys:
  assumes "apply_doc_metadata target doc = Inr target'"
    and "k \<noteq> ''in_subset''" and "k \<noteq> ''annotations''" and "k \<noteq> ''description''"
  shows "map_of target' k = map_of target k"
proof (cases "str_truthy doc \<and> coerce_description doc \<noteq> []")
  case False
  with assms(1) show ?thesis by (auto simp: apply_doc_metadata_def Let_def split: if_splits)
next
  case True
  obtain description metadata where
    sp: "split_doc_metadata (coerce_description doc) = (description, metadata)"
    by (cases "split_doc_metadata (coerce_description doc)")
  let ?t = "if description \<noteq> [] then AList.update ''description'' (PStr description) target
            else target"
  from True sp assms(1) have "apply_metadata_to_target ?t metadata = Inr target'"
    by (simp add: apply_doc_metadata_def Let_def)
  from apply_metadata_to_target_other_keys [OF this assms(2,3)]
  show ?thesis using assms(4) by (simp add: update_conv')
qed

lemma apply_doc_metadata_fresh:
  assumes "map_of target ''in_subset'' = None" and "map_of target ''annotations'' = None"
  shows "\<exists>target'. apply_doc_metadata target doc = Inr target'"
proof (cases "str_truthy doc \<and> coerce_description doc \<noteq> []")
  case False
  then show ?thesis by (auto simp: apply_doc_metadata_def Let_def split: if_splits)
next
  case True
  obtain description metadata where
    sp: "split_doc_metadata (coerce_description doc) = (description, metadata)"
    by (cases "split_doc_metadata (coerce_description doc)")
  let ?t = "if description \<noteq> [] then AList.update ''description'' (PStr description) target
            else target"
  have "map_of ?t ''in_subset'' = None" "map_of ?t ''annotations'' = None"
    using assms by (simp_all add: update_conv')
  from apply_metadata_to_target_fresh [OF this, of metadata] True sp
  show ?thesis by (simp add: apply_doc_metadata_def Let_def)
qed

lemma record_appinfo_entry_other_keys:
  assumes "record_appinfo_entry target node = Inr target'" and "k \<noteq> ''annotations''"
  shows "map_of target' k = map_of target k"
proof (cases node)
  case None
  with assms show ?thesis by (simp add: record_appinfo_entry_def)
next
  case (Some n)
  obtain tag_name node_text children where n: "n = XmlNode tag_name node_text children"
    by (cases n)
  from assms show ?thesis
    by (auto simp: record_appinfo_entry_def Some n Let_def update_conv'
        split: option.splits pyval.splits)
qed

lemma record_appinfo_entries_other_keys:
  "k \<noteq> ''annotations'' \<Longrightarrow> map_of (record_appinfo_entries target nodes) k = map_of target k"
proof (induction nodes arbitrary: target)
  case Nil
  then show ?case by simp
next
  case (Cons node nodes)
  show ?case
  proof (cases "record_appinfo_entry target (Some node)")
    case (Inl e)
    then show ?thesis by simp
  next
    case (Inr target')
    with Cons record_appinfo_entry_other_keys [OF Inr] show ?thesis by simp
  qed
qed

lemma apply_appinfo_metadata_other_keys:
  "k \<noteq> ''annotations'' \<Longrightarrow> map_of (apply_appinfo_metadata target annotation) k = map_of target k"
  by (simp add: apply_appinfo_metadata_def record_appinfo_entries_other_keys
      split: option.splits)

lemma set_if_False: "set_if False key v d = d"
  by (simp add: set_if_def)

lemma set_if_other_key: "k \<noteq> key \<Longrightarrow> map_of (set_if cond key v d) k = map_of d k"
  by (simp add: set_if_def update_conv')

text \<open>
  Claim C5, for attributes whose type has no enumerated values. For an attribute
  named \<open>id\<close> (in any letter case) on an owner class that \<open>class_is_ref_like\<close> accepts and
  for which \<open>reference_target_for_class\<close> resolves a class name, \<open>slot_from_attribute\<close>
  returns a slot whose \<open>range\<close> is that class.
\<close>

theorem slot_from_attribute_reference_range:
  assumes "lower attr_name = ''id''"
    and "class_is_ref_like (builder_resolver B) (Some owner_class)"
    and "reference_target_for_class (builder_resolver B) owner_class
           (Some (local_name (type_name_of (attr_type attr_obj)))) = Some target"
    and "target \<noteq> []"
    and "enumeration (facets_of (attr_type attr_obj)) = []"
  shows "\<exists>slot enums. slot_from_attribute B owner_class attr_name attr_obj = Inr (slot, enums) \<and>
           map_of slot ''range'' = Some (PStr target)"
proof -
  define slot1 :: slot where "slot1 = [(''range'', PStr target)]"
  obtain slot2 where slot2:
    "apply_doc_metadata slot1 (get_documentation (attr_annotation attr_obj)) = Inr slot2"
    using apply_doc_metadata_fresh [of slot1] by (auto simp: slot1_def)
  have r2: "map_of slot2 ''range'' = Some (PStr target)"
    using apply_doc_metadata_other_keys [OF slot2, of "''range''"] by (simp add: slot1_def)
  have s1: "(case (if lower attr_name = ''id'' \<and>
                     class_is_ref_like (builder_resolver B) (Some owner_class)
                  then reference_target_for_class (builder_resolver B) owner_class
                         (Some (local_name (type_name_of (attr_type attr_obj))))
                  else None) of
               Some candidate \<Rightarrow>
                 if candidate \<noteq> []
                 then AList.update ''range'' (PStr candidate)
                        [(''range'', PStr (map_xsd_primitive (attr_type attr_obj)))]
                 else [(''range'', PStr (map_xsd_primitive (attr_type attr_obj)))]
             | None \<Rightarrow> [(''range'', PStr (map_xsd_primitive (attr_type attr_obj)))]) = slot1"
    using assms(1-4) by (simp add: slot1_def)
  show ?thesis
    unfolding slot_from_attribute_def Let_def s1 slot2
    using assms(5) r2
    by (simp add: set_if_False set_if_other_key apply_appinfo_metadata_other_keys update_conv'
        split: option.splits)
qed

text \<open>The \<open>id\<close> attribute of \<open>ImageRef\<close> ranges over \<open>Image\<close>.\<close>

theorem slot_from_attribute_reference_range_example:
  "\<exists>slot enums. slot_from_attribute image_ref_builder ''ImageRef'' ''id'' (id_attribute [])
       = Inr (slot, enums) \<and>
     map_of slot ''range'' = Some (PStr ''Image'')"
proof -
  have a: "lower ''id'' = ''id''" by code_simp
  have b: "class_is_ref_like (builder_resolver image_ref_builder) (Some ''ImageRef'')"
    by code_simp
  have c: "reference_target_for_class (builder_resolver image_ref_builder) ''ImageRef''
      (Some (local_name (type_name_of (attr_type (id_attribute []))))) = Some ''Image''"
    by code_simp
  have d: "''Image'' \<noteq> []" by simp
  have e: "enumeration (facets_of (attr_type (id_attribute []))) = []" by code_simp
  show ?thesis
    by (rule slot_from_attribute_reference_range [OF a b c d e])
qed

text \<open>
  The same attribute with an enumerated type: the owner is reference-like and the target
  \<open>Image\<close> is resolved, but the enumeration step that follows replaces the range by the
  name of the synthesized enumeration.
\<close>

theorem enumerated_id_attribute_range:
  "class_is_ref_like (builder_resolver image_ref_builder) (Some ''ImageRef'') \<and>
   reference_target_for_class (builder_resolver image_ref_builder) ''ImageRef''
     (Some (local_name (type_name_of (attr_type (id_attribute [''Image:1'', ''Image:2'']))))) 
     = Some ''Image'' \<and>
   slot_from_attribute image_ref_builder ''ImageRef'' ''id''
     (id_attribute [''Image:1'', ''Image:2'']) =
     Inr ([(''range'', PStr ''Enum_ImageRef_id''), (''required'', PBool True),
           (''identifier'', PBool True)],
          [(''Enum_ImageRef_id'',
            PDict [(''permissible_values'',
                    PDict [(''Image:1'', PDict []), (''Image:2'', PDict [])])])])"
  by code_simp

section \<open>Properties of the identity processor\<close>

lemma add_keyref_slots_skipped:
  assumes "\<not> str_truthy range_target \<or> (\<forall>p\<in>set field_paths. p = [])"
  shows "add_keyref_slots P source_class range_target field_paths st = Inr st"
  using assms by (induction field_paths) (auto simp: Let_def)

lemma process_keyref_skipped:
  assumes "keyref_targets key_target_map refer = [] \<or>
           select_keyref_range (resolver_of P st) (keyref_targets key_target_map refer) = None \<or>
           (\<forall>p\<in>set field_paths. p = [])"
  shows "process_keyref P (Some refer) selector field_paths (key_target_map, st)
           = Inr (key_target_map, st)"
proof -
  have "select_keyref_range (resolver_of P st) (keyref_targets key_target_map refer) = None"
    if "keyref_targets key_target_map refer = []"
    using that by (simp add: select_keyref_range_def)
  with assms have
    "\<not> str_truthy (select_keyref_range (resolver_of P st) (keyref_targets key_target_map refer))
       \<or> (\<forall>p\<in>set field_paths. p = [])"
    by (auto simp: str_truthy_def)
  then have "add_keyref_slots P source_class
      (select_keyref_range (resolver_of P st) (keyref_targets key_target_map refer))
      field_paths st = Inr st" for source_class
    by (rule add_keyref_slots_skipped)
  then show ?thesis
    by (simp add: process_keyref_def Let_def)
qed

text \<open>
  Claim C6. A keyref whose referred key has no recorded target class, or whose candidate
  classes have no common ancestor, or whose field paths are all empty, leaves the schema
  and the key map as they were, whatever the callbacks do (none is called, so none can
  raise), and the remaining identity constraints are processed from the same state.
\<close>

theorem unresolved_keyref_skipped:
  assumes "keyref_targets key_target_map refer = [] \<or>
           select_keyref_range (resolver_of P st) (keyref_targets key_target_map refer) = None \<or>
           (\<forall>p\<in>set field_paths. p = [])"
  shows "process_identity P (ident_name, XsdKeyref (Some refer) selector field_paths)
           (key_target_map, st) = Inr (key_target_map, st) \<and>
         process_identities_from P
           ((ident_name, XsdKeyref (Some refer) selector field_paths) # items) (key_target_map, st)
           = process_identities_from P items (key_target_map, st)"
  using process_keyref_skipped [OF assms, of selector]
  by (simp add: process_identity_def)

text \<open>
  A keyref to a key that selects \<open>Base\<close> and \<open>Other\<close>, which share no ancestor; its source
  class is one for which adding an attribute would raise.
\<close>

theorem unresolved_keyref_skipped_example:
  "process_identity recording_processor
     (''{ns}NoAncestor'',
      XsdKeyref (Some \<lparr>refer_name = Some ''{ns}BaseKey'', refer_str = ''XsdKey''\<rparr>)
        (Some ''.//ns:Broken'') [''@ref''])
     ([(''BaseKey'', [''Base'', ''Other''])], []) = Inr ([(''BaseKey'', [''Base'', ''Other''])], [])"
proof -
  have "select_keyref_range (resolver_of recording_processor [])
          (keyref_targets [(''BaseKey'', [''Base'', ''Other''])]
             \<lparr>refer_name = Some ''{ns}BaseKey'', refer_str = ''XsdKey''\<rparr>) = None"
    by code_simp
  then have "keyref_targets [(''BaseKey'', [''Base'', ''Other''])]
               \<lparr>refer_name = Some ''{ns}BaseKey'', refer_str = ''XsdKey''\<rparr> = [] \<or>
      select_keyref_range (resolver_of recording_processor [])
          (keyref_targets [(''BaseKey'', [''Base'', ''Other''])]
             \<lparr>refer_name = Some ''{ns}BaseKey'', refer_str = ''XsdKey''\<rparr>) = None \<or>
      (\<forall>p\<in>set [''@ref'']. p = [])"
    by blast
  from unresolved_keyref_skipped [OF this, of "''{ns}NoAncestor''" "Some ''.//ns:Broken''" "[]"]
  show ?thesis by blast
qed

text \<open>
  The whole pass over two keys and four keyrefs: the three keyrefs without a target, without
  a common ancestor and without a field path add nothing, and the keyref after them is
  still processed.
\<close>

lemma process_identities_example:
  "process_identities recording_processor (Some example_identities) [] =
     Inr [AddUniqueKey ''Base'' ''BaseKey'' [''ID''],
          AddUniqueKey ''Other'' ''BaseKey'' [''ID''],
          AddUniqueKey ''DerivedA'' ''DerivedKey'' [''ID''],
          AddUniqueKey ''DerivedB'' ''DerivedKey'' [''ID''],
          AddAttribute ''Holder'' ''ref'' (keyref_slot_def ''Base'')]"
  by code_simp

end
